theory Spec2Isabelle
  imports Complex_Main "HOL-Library.Multiset"
begin

section \<open>Strings and regular expressions\<close>

text \<open>
  JavaScript strings are modelled as \<open>string\<close>: a character is a code unit below 256
  (ASCII and the Latin-1 supplement; \<open>CHR 0xA0\<close> is the no-break space U+00A0).
  \<open>String.prototype.toLowerCase\<close> maps \<open>A\<close>..\<open>Z\<close> to \<open>a\<close>..\<open>z\<close> and the capital
  letters U+00C0..U+00DE, the multiplication sign U+00D7 apart, to the letter 32 code
  units higher; it leaves every other character alone.
\<close>

definition char_between :: "char \<Rightarrow> char \<Rightarrow> char \<Rightarrow> bool" where
  "char_between lo hi c = ((of_char lo :: nat) \<le> of_char c \<and> (of_char c :: nat) \<le> of_char hi)"

definition lower_char :: "char \<Rightarrow> char" where
  "lower_char c =
     (if char_between CHR ''A'' CHR ''Z'' c
         \<or> (char_between (CHR 0xC0) (CHR 0xDE) c \<and> c \<noteq> CHR 0xD7)
      then char_of (of_char c + (32::nat)) else c)"

definition toLowerCase :: "string \<Rightarrow> string" where
  "toLowerCase s = map lower_char s"

text \<open>
  The fragment of JavaScript regular expressions used by \<open>server.js\<close>: the anchors \<open>^\<close> and
  \<open>$\<close> (no \<open>m\<close> flag, so they match only at the two ends of the input), a literal
  character, a character class given by its ranges, concatenation and the counted
  repetition \<open>{n}\<close>. A matcher state is the index reached and the input left; \<open>rmatch\<close>
  returns every state in which the expression can end.
\<close>

datatype regex =
    Bol
  | Eol
  | Lit char
  | Cls "(char \<times> char) list"
  | Cat regex regex
  | Rep nat regex

definition in_ranges :: "(char \<times> char) list \<Rightarrow> char \<Rightarrow> bool" where
  "in_ranges rs c = list_ex (\<lambda>(lo, hi). char_between lo hi c) rs"

primrec iterate_match ::
  "(nat \<times> string \<Rightarrow> (nat \<times> string) list) \<Rightarrow> nat \<Rightarrow> nat \<times> string \<Rightarrow> (nat \<times> string) list" where
  "iterate_match m 0 st = [st]"
| "iterate_match m (Suc n) st = concat (map (iterate_match m n) (m st))"

fun rmatch :: "regex \<Rightarrow> nat \<times> string \<Rightarrow> (nat \<times> string) list" where
  "rmatch Bol (i, s) = (if i = 0 then [(i, s)] else [])"
| "rmatch Eol (i, s) = (if s = [] then [(i, s)] else [])"
| "rmatch (Lit c) (i, s) = (case s of [] \<Rightarrow> [] | d # t \<Rightarrow> if d = c then [(Suc i, t)] else [])"
| "rmatch (Cls rs) (i, s) =
     (case s of [] \<Rightarrow> [] | d # t \<Rightarrow> if in_ranges rs d then [(Suc i, t)] else [])"
| "rmatch (Cat a b) st = concat (map (rmatch b) (rmatch a st))"
| "rmatch (Rep n r) st = iterate_match (rmatch r) n st"

text \<open>
  \<open>RegExp.prototype.test\<close>: the search tries every start index from 0 to the length of
  the input and succeeds when the expression matches at one of them.
\<close>

definition regex_test :: "regex \<Rightarrow> string \<Rightarrow> bool" where
  "regex_test r s = list_ex (\<lambda>i. rmatch r (i, drop i s) \<noteq> []) [0..<Suc (length s)]"

section \<open>The validator\<close>

text \<open>\<^verbatim>\<open>/^0x[a-fA-F0-9]{40}$/\<close>\<close>

definition address_pattern :: regex where
  "address_pattern =
     Cat Bol (Cat (Lit CHR ''0'') (Cat (Lit CHR ''x'')
       (Cat (Rep 40 (Cls [(CHR ''a'', CHR ''f''), (CHR ''A'', CHR ''F''), (CHR ''0'', CHR ''9'')]))
            Eol)))"

definition isValidEthereumAddress :: "string \<Rightarrow> bool" where
  "isValidEthereumAddress address = regex_test address_pattern address"


text \<open>
  \<open>String.prototype.trim\<close> and the leading-whitespace skip of \<open>parseInt\<close> remove white
  space and line terminators; among the code units below 256 these are tab, LF, VT, FF,
  CR, space and the no-break space U+00A0.
\<close>

definition is_js_space :: "char \<Rightarrow> bool" where
  "is_js_space c = ((of_char c :: nat) \<in> {9, 10, 11, 12, 13, 32, 160})"

definition trim :: "string \<Rightarrow> string" where
  "trim s = rev (dropWhile is_js_space (rev (dropWhile is_js_space s)))"

section \<open>JSON values and HTTP responses\<close>

text \<open>
  What \<open>res.json\<close> sends: objects keep their keys in the order of the source. A \<open>Date\<close> is
  kept as its time value in milliseconds (\<open>JDate\<close>), an \<open>ObjectId\<close> as \<open>JId\<close>.
\<close>

datatype json =
    JNull
  | JBool bool
  | JNum int
  | JStr string
  | JDate int
  | JId nat
  | JArr "json list"
  | JObj "(string \<times> json) list"

record response =
  status :: nat
  body :: json

section \<open>The collection\<close>

text \<open>
  A document of \<open>whitelistSchema\<close>: the four declared paths, the \<open>_id\<close> the model
  constructor generates, and \<open>createdAt\<close>/\<open>updatedAt\<close> of \<open>timestamps: true\<close>. The
  collection is the list of its documents in insertion order.
\<close>

record registration =
  doc_id :: nat
  address :: string
  registeredAt :: int
  ipAddress :: "string option"
  userAgent :: "string option"
  createdAt :: int
  updatedAt :: int

type_synonym store = "registration list"

datatype store_error = DuplicateKey | BadValue

text \<open>
  The clock and the identifier generator are inputs: \<open>env_now\<close> is what \<open>Date.now\<close>
  returns during the request, \<open>env_id\<close> the \<open>ObjectId\<close> given to a new document.
\<close>

record env =
  env_now :: int
  env_id :: nat

text \<open>
  The schema declares \<open>lowercase: true\<close> and \<open>trim: true\<close> on \<open>address\<close>. The ODM runs
  these setters on a value assigned to the path and on a value of the path in a query
  filter.
\<close>

definition address_setters :: "string \<Rightarrow> string" where
  "address_setters v = toLowerCase (trim v)"

definition new_Whitelist :: "env \<Rightarrow> string \<Rightarrow> string option \<Rightarrow> string option \<Rightarrow> registration" where
  "new_Whitelist e a ip ua =
     \<lparr>doc_id = env_id e, address = address_setters a, registeredAt = env_now e,
      ipAddress = ip, userAgent = ua, createdAt = env_now e, updatedAt = env_now e\<rparr>"

definition Whitelist_findOne :: "string \<Rightarrow> store \<Rightarrow> registration option" where
  "Whitelist_findOne a s = find (\<lambda>d. address d = address_setters a) s"

text \<open>\<open>save\<close> inserts the document; the unique index on \<open>address\<close> rejects a second
  document with the same address.\<close>

definition Whitelist_save :: "registration \<Rightarrow> store \<Rightarrow> store_error + store" where
  "Whitelist_save d s =
     (if list_ex (\<lambda>x. address x = address d) s then Inl DuplicateKey else Inr (s @ [d]))"

definition countDocuments :: "store \<Rightarrow> int" where
  "countDocuments s = int (length s)"

text \<open>\<open>countDocuments({ registeredAt: { $gte: t } })\<close>\<close>

definition countDocuments_gte :: "int \<Rightarrow> store \<Rightarrow> int" where
  "countDocuments_gte t s = int (length (filter (\<lambda>d. t \<le> registeredAt d) s))"

definition Whitelist_findOneAndDelete :: "string \<Rightarrow> store \<Rightarrow> registration option \<times> store" where
  "Whitelist_findOneAndDelete a s =
     (case Whitelist_findOne a s of
        None \<Rightarrow> (None, s)
      | Some d \<Rightarrow> (Some d, remove1 d s))"

text \<open>
  \<open>find().sort({ registeredAt: -1 }).skip(skip).limit(limit)\<close>. The sort is by
  \<open>registeredAt\<close> descending, documents with equal \<open>registeredAt\<close> staying in insertion
  order. The database refuses a negative \<open>skip\<close>; a limit of 0 means no limit and a
  negative limit is taken by its absolute value.
\<close>

definition sort_registeredAt_desc :: "store \<Rightarrow> store" where
  "sort_registeredAt_desc s = sort_key (\<lambda>d. - registeredAt d) s"

definition apply_limit :: "int \<Rightarrow> 'a list \<Rightarrow> 'a list" where
  "apply_limit limit xs = (if limit = 0 then xs else take (nat \<bar>limit\<bar>) xs)"

definition Whitelist_find_page :: "int \<Rightarrow> int \<Rightarrow> store \<Rightarrow> store_error + registration list" where
  "Whitelist_find_page skip limit s =
     (if skip < 0 then Inl BadValue
      else Inr (apply_limit limit (drop (nat skip) (sort_registeredAt_desc s))))"

text \<open>\<open>.select("address registeredAt")\<close>: the two paths and \<open>_id\<close>.\<close>

definition select_address_registeredAt :: "registration \<Rightarrow> json" where
  "select_address_registeredAt d =
     JObj [(''_id'', JId (doc_id d)), (''address'', JStr (address d)),
           (''registeredAt'', JDate (registeredAt d))]"

section \<open>Request handlers\<close>

definition failure :: "nat \<Rightarrow> string \<Rightarrow> response" where
  "failure code msg = \<lparr>status = code, body = JObj [(''success'', JBool False), (''message'', JStr msg)]\<rparr>"

definition internal_error :: response where
  "internal_error = failure 500 ''Internal server error''"

subsection \<open>POST /api/whitelist/register\<close>

text \<open>
  \<open>req.body.address\<close> is a JSON value or absent; \<open>req.ip\<close>, the socket's remote address
  and the \<open>user-agent\<close> header may each be absent.
\<close>

record register_request =
  body_address :: "json option"
  req_ip :: "string option"
  remoteAddress :: "string option"
  user_agent :: "string option"

text \<open>\<open>!address || typeof address !== "string"\<close> lets through the non-empty strings only.\<close>

fun string_address :: "json option \<Rightarrow> string option" where
  "string_address (Some (JStr a)) = (if a = [] then None else Some a)"
| "string_address _ = None"

text \<open>\<open>a || b\<close> on optional strings: the empty string and \<open>undefined\<close> are falsy.\<close>

fun js_or :: "string option \<Rightarrow> string option \<Rightarrow> string option" where
  "js_or (Some a) b = (if a = [] then b else Some a)"
| "js_or None b = b"

definition registration_view :: "registration \<Rightarrow> json" where
  "registration_view d =
     JObj [(''address'', JStr (address d)), (''registeredAt'', JDate (registeredAt d))]"

text \<open>
  The handler: validate, lower-case, look the address up, and save a new document when
  there is none. What it writes to the console, the count it logs after the save
  included, does not enter the response. An error thrown by the store is caught and
  answered with 500.
\<close>

definition register_handler :: "env \<Rightarrow> register_request \<Rightarrow> store \<Rightarrow> response \<times> store" where
  "register_handler e req s =
     (case string_address (body_address req) of
        None \<Rightarrow> (failure 400 ''Invalid wallet address'', s)
      | Some a \<Rightarrow>
          if \<not> isValidEthereumAddress a then (failure 400 ''Invalid Ethereum address format'', s)
          else
            let normalizedAddress = toLowerCase a in
            (case Whitelist_findOne normalizedAddress s of
               Some existing \<Rightarrow>
                 (\<lparr>status = 409,
                   body = JObj [(''success'', JBool False),
                                (''message'', JStr ''Address already registered''),
                                (''registration'', registration_view existing)]\<rparr>, s)
             | None \<Rightarrow>
                 let registration =
                       new_Whitelist e normalizedAddress
                         (js_or (req_ip req) (remoteAddress req)) (user_agent req)
                 in (case Whitelist_save registration s of
                       Inl err \<Rightarrow> (internal_error, s)
                     | Inr s' \<Rightarrow>
                         (\<lparr>status = 201,
                           body = JObj [(''success'', JBool True),
                                        (''message'', JStr ''Successfully registered''),
                                        (''address'', JStr (address registration)),
                                        (''registeredAt'', JDate (registeredAt registration))]\<rparr>,
                          s'))))"

subsection \<open>GET /api/whitelist/check/:address\<close>

definition check_handler :: "string \<Rightarrow> store \<Rightarrow> response \<times> store" where
  "check_handler a s =
     (if a = [] then (failure 400 ''Address is required'', s)
      else if \<not> isValidEthereumAddress a then (failure 400 ''Invalid Ethereum address format'', s)
      else
        let normalizedAddress = toLowerCase a;
            registration = Whitelist_findOne normalizedAddress s
        in (\<lparr>status = 200,
              body = JObj [(''success'', JBool True),
                           (''isRegistered'', JBool (registration \<noteq> None)),
                           (''registration'',
                              (case registration of
                                 Some d \<Rightarrow> registration_view d
                               | None \<Rightarrow> JNull))]\<rparr>, s))"


subsection \<open>GET /api/whitelist/list\<close>

text \<open>
  A JavaScript number that is \<open>NaN\<close>, an integer or an infinity. \<open>nearest_double\<close> is the
  conversion of a mathematical integer to a number: integers of up to 53 bits are kept,
  longer ones are rounded to 53 significant bits, ties to the even one, and what reaches
  \<open>2^1024\<close> is an infinity.
\<close>

datatype js_number = NaN | Finite int | PosInfinity | NegInfinity

function bit_length :: "int \<Rightarrow> nat" where
  "bit_length n = (if n \<le> 0 then 0 else Suc (bit_length (n div 2)))"
  by pat_completeness auto
termination
  by (relation "measure nat") auto

definition round_double :: "int \<Rightarrow> int option" where
  "round_double m =
     (let e = bit_length m in
      if e \<le> 53 then Some m
      else
        let ulp = 2 ^ (e - 53);
            q = m div ulp;
            r = m mod ulp;
            q' = (if ulp < 2 * r \<or> (2 * r = ulp \<and> odd q) then q + 1 else q);
            v = q' * ulp
        in if 2 ^ 1024 \<le> v then None else Some v)"

definition nearest_double :: "int \<Rightarrow> js_number" where
  "nearest_double n =
     (case round_double \<bar>n\<bar> of
        None \<Rightarrow> if n < 0 then NegInfinity else PosInfinity
      | Some v \<Rightarrow> Finite (if n < 0 then - v else v))"

text \<open>
  \<open>parseInt(string)\<close> without a radix: skip leading white space, read a sign, switch to
  radix 16 after a \<open>0x\<close> or \<open>0X\<close> prefix, and read the longest run of digits of the
  radix, whatever follows it. No digit gives \<open>NaN\<close>; otherwise the result is the number
  nearest to the signed integer read (the engine rounds the exact integer).
\<close>

definition digit_value :: "char \<Rightarrow> nat" where
  "digit_value c =
     (if char_between CHR ''0'' CHR ''9'' c then of_char c - 48
      else if char_between CHR ''a'' CHR ''z'' c then of_char c - 87
      else if char_between CHR ''A'' CHR ''Z'' c then of_char c - 55
      else 36)"

definition parse_digits :: "int \<Rightarrow> string \<Rightarrow> js_number" where
  "parse_digits sign S =
     (let hex = (take 2 S = ''0x'' \<or> take 2 S = ''0X'');
          R = (if hex then 16 else (10::nat));
          S = (if hex then drop 2 S else S);
          Z = takeWhile (\<lambda>c. digit_value c < R) S
      in if Z = [] then NaN
         else nearest_double
                (sign * foldl (\<lambda>acc c. acc * int R + int (digit_value c)) 0 Z))"

definition parseInt :: "string \<Rightarrow> js_number" where
  "parseInt inputString =
     (let S = dropWhile is_js_space inputString;
          sign = (if S \<noteq> [] \<and> hd S = CHR ''-'' then - 1 else (1::int));
          S = (if S \<noteq> [] \<and> (hd S = CHR ''+'' \<or> hd S = CHR ''-'') then tl S else S)
      in parse_digits sign S)"

text \<open>\<open>req.query.page\<close> and \<open>req.query.limit\<close>: a string, or absent (\<open>undefined\<close>).\<close>

record list_query =
  q_page :: "string option"
  q_limit :: "string option"

definition ToString :: "string option \<Rightarrow> string" where
  "ToString v = (case v of None \<Rightarrow> ''undefined'' | Some s \<Rightarrow> s)"

text \<open>\<open>parseInt(v) || d\<close>: \<open>NaN\<close> and \<open>0\<close> are falsy, every other number is truthy.\<close>

definition parseInt_or :: "string option \<Rightarrow> int \<Rightarrow> js_number" where
  "parseInt_or v d =
     (case parseInt (ToString v) of
        NaN \<Rightarrow> Finite d
      | Finite n \<Rightarrow> if n = 0 then Finite d else Finite n
      | PosInfinity \<Rightarrow> PosInfinity
      | NegInfinity \<Rightarrow> NegInfinity)"

definition list_page :: "list_query \<Rightarrow> js_number" where
  "list_page q = parseInt_or (q_page q) 1"

definition list_limit :: "list_query \<Rightarrow> js_number" where
  "list_limit q = parseInt_or (q_limit q) 50"

definition list_skip :: "int \<Rightarrow> int \<Rightarrow> int" where
  "list_skip page limit = (page - 1) * limit"

text \<open>\<open>Math.ceil(totalCount / limit)\<close>; a division by zero gives \<open>Infinity\<close> or \<open>NaN\<close>,
  which \<open>res.json\<close> writes as \<open>null\<close>.\<close>

definition math_ceil_div :: "int \<Rightarrow> int \<Rightarrow> json" where
  "math_ceil_div totalCount limit =
     (if limit = 0 then JNull else JNum (- ((- totalCount) div limit)))"

text \<open>The handler after the two coercions, with \<open>page\<close> and \<open>limit\<close> as its local constants.\<close>

definition list_response :: "int \<Rightarrow> int \<Rightarrow> store \<Rightarrow> response \<times> store" where
  "list_response page limit s =
     (let skip = list_skip page limit in
      case Whitelist_find_page skip limit s of
        Inl err \<Rightarrow> (internal_error, s)
      | Inr registrations \<Rightarrow>
          let totalCount = countDocuments s in
          (\<lparr>status = 200,
            body = JObj [(''success'', JBool True),
                         (''count'', JNum (int (length registrations))),
                         (''total'', JNum totalCount),
                         (''page'', JNum page),
                         (''totalPages'', math_ceil_div totalCount limit),
                         (''registrations'', JArr (map select_address_registeredAt registrations))]\<rparr>,
           s))"

text \<open>
  The handler. With an infinite \<open>page\<close> or \<open>limit\<close> the query carries a \<open>skip\<close> or a
  \<open>limit\<close> that is not a finite number; the database refuses it and the error is
  answered with 500.
\<close>

definition list_handler :: "list_query \<Rightarrow> store \<Rightarrow> response \<times> store" where
  "list_handler q s =
     (case list_page q of
        Finite page \<Rightarrow>
          (case list_limit q of
             Finite limit \<Rightarrow> list_response page limit s
           | _ \<Rightarrow> (internal_error, s))
      | _ \<Rightarrow> (internal_error, s))"

subsection \<open>GET /api/whitelist/stats\<close>

text \<open>
  The server's clock and time zone: \<open>clock_now\<close> is the time value of \<open>new Date()\<close>,
  \<open>tz_offset\<close> the offset of local time from UTC, both in milliseconds. The two
  \<open>new Date()\<close> of one request read the same instant, and the offset is fixed (no
  daylight-saving change inside the last seven days).
\<close>

record clock =
  clock_now :: int
  tz_offset :: int

definition msPerDay :: int where
  "msPerDay = 86400000"

text \<open>\<open>today.setHours(0, 0, 0, 0)\<close>: local midnight of the current local day.\<close>

definition start_of_today :: "clock \<Rightarrow> int" where
  "start_of_today c = ((clock_now c + tz_offset c) div msPerDay) * msPerDay - tz_offset c"

text \<open>\<open>weekAgo.setDate(weekAgo.getDate() - 7)\<close>: the same local time seven days earlier.\<close>

definition week_ago :: "clock \<Rightarrow> int" where
  "week_ago c = clock_now c - 7 * msPerDay"

definition stats_handler :: "clock \<Rightarrow> store \<Rightarrow> response \<times> store" where
  "stats_handler c s =
     (let total = countDocuments s;
          todayCount = countDocuments_gte (start_of_today c) s;
          weekCount = countDocuments_gte (week_ago c) s
      in (\<lparr>status = 200,
            body = JObj [(''success'', JBool True),
                         (''stats'', JObj [(''total'', JNum total),
                                           (''today'', JNum todayCount),
                                           (''lastWeek'', JNum weekCount)])]\<rparr>, s))"

subsection \<open>DELETE /api/whitelist/:address\<close>

definition remove_handler :: "string \<Rightarrow> store \<Rightarrow> response \<times> store" where
  "remove_handler a s =
     (let normalizedAddress = toLowerCase a in
      case Whitelist_findOneAndDelete normalizedAddress s of
        (Some result, s') \<Rightarrow>
          (\<lparr>status = 200,
            body = JObj [(''success'', JBool True),
                         (''message'', JStr ''Address removed from whitelist'')]\<rparr>, s')
      | (None, s') \<Rightarrow> (failure 404 ''Address not found'', s'))"

section \<open>Sequences of requests\<close>

datatype request =
    Register env register_request
  | Check string
  | ListRegistrations list_query
  | Stats clock
  | Remove string

fun handle :: "request \<Rightarrow> store \<Rightarrow> response \<times> store" where
  "handle (Register e req) s = register_handler e req s"
| "handle (Check a) s = check_handler a s"
| "handle (ListRegistrations q) s = list_handler q s"
| "handle (Stats c) s = stats_handler c s"
| "handle (Remove a) s = remove_handler a s"

text \<open>The store after a sequence of requests, served one after the other.\<close>

fun run :: "request list \<Rightarrow> store \<Rightarrow> store" where
  "run [] s = s"
| "run (r # rs) s = run rs (snd (handle r s))"

section \<open>Observations used in the statements\<close>

text \<open>Reading a field of a JSON object and the elements of a JSON array.\<close>

fun json_field :: "string \<Rightarrow> json \<Rightarrow> json" where
  "json_field k (JObj kvs) = (case map_of kvs k of Some v \<Rightarrow> v | None \<Rightarrow> JNull)"
| "json_field k _ = JNull"

fun json_elements :: "json \<Rightarrow> json list" where
  "json_elements (JArr xs) = xs"
| "json_elements _ = []"

text \<open>Every key that occurs in a JSON value, at any depth.\<close>

primrec json_keys :: "json \<Rightarrow> string list" where
  "json_keys JNull = []"
| "json_keys (JBool b) = []"
| "json_keys (JNum n) = []"
| "json_keys (JStr s) = []"
| "json_keys (JDate t) = []"
| "json_keys (JId i) = []"
| "json_keys (JArr xs) = concat (map json_keys xs)"
| "json_keys (JObj kvs) = concat (map (\<lambda>kv. fst kv # snd kv) (map (map_prod id json_keys) kvs))"

text \<open>A document with the two fields that are stored but never returned blanked out.\<close>

definition redact :: "registration \<Rightarrow> registration" where
  "redact d = d\<lparr>ipAddress := None, userAgent := None\<rparr>"

text \<open>The keys of the two stored fields that no response may carry.\<close>

definition private_keys :: "string list" where
  "private_keys = [''ipAddress'', ''userAgent'']"

text \<open>The requests that only read.\<close>

fun is_read :: "request \<Rightarrow> bool" where
  "is_read (Check a) = True"
| "is_read (ListRegistrations q) = True"
| "is_read (Stats c) = True"
| "is_read (Register e req) = False"
| "is_read (Remove a) = False"

text \<open>
  A stored address is normalized when it passes the validator and is its own lower-case
  form; the invariant of the collection is that addresses are normalized and pairwise
  different.
\<close>

definition normalized :: "string \<Rightarrow> bool" where
  "normalized a = (isValidEthereumAddress a \<and> toLowerCase a = a)"

definition store_inv :: "store \<Rightarrow> bool" where
  "store_inv s = (distinct (map address s) \<and> list_all (\<lambda>d. normalized (address d)) s)"

subsection \<open>Example data\<close>

definition example_request :: "string \<Rightarrow> register_request" where
  "example_request a =
     \<lparr>body_address = Some (JStr a), req_ip = Some ''203.0.113.7'', remoteAddress = None,
      user_agent = Some ''curl/8.5''\<rparr>"

definition example_doc :: "nat \<Rightarrow> string \<Rightarrow> int \<Rightarrow> string \<Rightarrow> registration" where
  "example_doc i a t ip =
     \<lparr>doc_id = i, address = a, registeredAt = t, ipAddress = Some ip,
      userAgent = Some ''curl/8.5'', createdAt = t, updatedAt = t\<rparr>"

definition example_store :: store where
  "example_store =
     [example_doc 1 ''0x00000000000000000000000000000000000000a1'' 1000 ''203.0.113.7'',
      example_doc 2 ''0x00000000000000000000000000000000000000b2'' 3000 ''203.0.113.8'',
      example_doc 3 ''0x00000000000000000000000000000000000000c3'' 2000 ''203.0.113.9'']"

abbreviation hexcls :: "(char \<times> char) list" where
  "hexcls \<equiv> [(CHR ''a'', CHR ''f''), (CHR ''A'', CHR ''F''), (CHR ''0'', CHR ''9'')]"

section \<open>The validator accepts exactly the 42-character addresses\<close>

lemma char_eq_code: "c = d \<longleftrightarrow> (of_char c :: nat) = of_char d"
  by simp

lemma is_hex_iff:
  "in_ranges hexcls c \<longleftrightarrow> c \<in> set ''0123456789abcdefABCDEF''"
  by (simp add: in_ranges_def char_between_def char_eq_code del: of_char_eq_iff) arith

lemma iterate_match_Cls:
  "iterate_match (rmatch (Cls rs)) n (i, s) =
     (if n \<le> length s \<and> list_all (in_ranges rs) (take n s) then [(i + n, drop n s)] else [])"
proof (induction n arbitrary: i s)
  case 0
  then show ?case by simp
next
  case (Suc n)
  show ?case
  proof (cases s)
    case Nil
    then show ?thesis by simp
  next
    case (Cons d t)
    then show ?thesis using Suc.IH [of "Suc i" t] by simp
  qed
qed

lemma rmatch_hex_Eol:
  "rmatch (Cat (Rep 40 (Cls hexcls)) Eol) (i, h) \<noteq> [] \<longleftrightarrow>
     length h = 40 \<and> list_all (in_ranges hexcls) h"
  by (auto simp: iterate_match_Cls)

lemma rmatch_Cat_Bol: "rmatch (Cat Bol r) (i, s) = (if i = 0 then rmatch r (i, s) else [])"
  by simp

lemma rmatch_Cat_Lit:
  "rmatch (Cat (Lit c) r) (i, s) =
     (case s of [] \<Rightarrow> [] | d # t \<Rightarrow> if d = c then rmatch r (Suc i, t) else [])"
  by (simp split: list.splits)

lemma rmatch_address_pattern:
  "rmatch address_pattern (i, s) \<noteq> [] \<longleftrightarrow>
     i = 0 \<and> (\<exists>h. s = CHR ''0'' # CHR ''x'' # h \<and> length h = 40 \<and>
        list_all (in_ranges hexcls) h)"
proof (cases s)
  case Nil
  then show ?thesis
    by (simp only: address_pattern_def rmatch_Cat_Bol rmatch_Cat_Lit list.case) simp
next
  case c: (Cons c t)
  show ?thesis
  proof (cases t)
    case Nil
    with c show ?thesis
      by (simp only: address_pattern_def rmatch_Cat_Bol rmatch_Cat_Lit list.case) simp
  next
    case (Cons d h)
    have step: "rmatch address_pattern (i, c # d # h) =
       (if i = 0 then if c = CHR ''0'' then if d = CHR ''x''
        then rmatch (Cat (Rep 40 (Cls hexcls)) Eol) (Suc (Suc i), h) else [] else [] else [])"
      by (simp only: address_pattern_def rmatch_Cat_Bol rmatch_Cat_Lit list.case)
    show ?thesis unfolding c Cons step
      by (auto simp del: rmatch.simps simp: rmatch_hex_Eol)
  qed
qed

lemma regex_test_address_pattern:
  "regex_test address_pattern s \<longleftrightarrow> rmatch address_pattern (0, s) \<noteq> []"
proof
  assume "regex_test address_pattern s"
  then obtain i where "rmatch address_pattern (i, drop i s) \<noteq> []"
    unfolding regex_test_def list_ex_iff by blast
  moreover from this have "i = 0" by (simp add: rmatch_address_pattern)
  ultimately show "rmatch address_pattern (0, s) \<noteq> []" by simp
next
  assume "rmatch address_pattern (0, s) \<noteq> []"
  then have "\<exists>i\<in>set [0..<Suc (length s)]. rmatch address_pattern (i, drop i s) \<noteq> []"
    by (intro bexI [of _ 0]) simp_all
  then show "regex_test address_pattern s"
    by (simp only: regex_test_def list_ex_iff)
qed

lemma isValid_iff:
  "isValidEthereumAddress a \<longleftrightarrow>
     (\<exists>h. a = CHR ''0'' # CHR ''x'' # h \<and> length h = 40 \<and> list_all (in_ranges hexcls) h)"
  by (simp add: isValidEthereumAddress_def regex_test_address_pattern rmatch_address_pattern)

lemma lower_char_hex: "in_ranges hexcls (lower_char c) \<longleftrightarrow> in_ranges hexcls c"
  by (auto simp: in_ranges_def char_between_def lower_char_def)

lemma lower_char_idem: "lower_char (lower_char c) = lower_char c"
  by (auto simp: char_between_def lower_char_def)

lemma toLowerCase_idem: "toLowerCase (toLowerCase a) = toLowerCase a"
  by (simp add: toLowerCase_def lower_char_idem)

lemma list_all_hex_lower: "list_all (in_ranges hexcls) (map lower_char h) \<longleftrightarrow> list_all (in_ranges hexcls) h"
  by (induction h) (simp_all add: lower_char_hex)

lemma lower_char_0x: "lower_char CHR ''0'' = CHR ''0''" "lower_char CHR ''x'' = CHR ''x''"
  by (simp_all add: lower_char_def char_between_def)

lemma isValid_toLowerCase: "isValidEthereumAddress a \<Longrightarrow> isValidEthereumAddress (toLowerCase a)"
  by (auto simp: isValid_iff toLowerCase_def lower_char_0x list_all_hex_lower)

lemma hex_not_space: "in_ranges hexcls c \<Longrightarrow> \<not> is_js_space c"
  by (auto simp: in_ranges_def char_between_def is_js_space_def)

lemma trim_valid: 
  assumes "isValidEthereumAddress a" shows "trim a = a"
proof -
  from assms obtain h where a: "a = CHR ''0'' # CHR ''x'' # h" and l: "length h = 40"
    and hx: "list_all (in_ranges hexcls) h" by (auto simp: isValid_iff)
  from l have "h \<noteq> []" by auto
  then obtain h' c where h: "h = h' @ [c]" by (metis rev_exhaust)
  with hx have "\<not> is_js_space c" by (simp add: hex_not_space)
  moreover have "\<not> is_js_space CHR ''0''" by (simp add: is_js_space_def)
  ultimately show ?thesis unfolding a h trim_def by simp
qed

lemma address_setters_normalized:
  "isValidEthereumAddress a \<Longrightarrow> address_setters (toLowerCase a) = toLowerCase a"
  by (simp add: address_setters_def trim_valid isValid_toLowerCase toLowerCase_idem)

lemma isValid_append_iff:
  "isValidEthereumAddress a \<longleftrightarrow>
     (\<exists>h. a = ''0x'' @ h \<and> length h = 40 \<and> set h \<subseteq> set ''0123456789abcdefABCDEF'')"
proof -
  have "list_all (in_ranges hexcls) h \<longleftrightarrow> set h \<subseteq> set ''0123456789abcdefABCDEF''" for h
    unfolding list_all_iff subset_iff is_hex_iff by blast
  then show ?thesis by (simp add: isValid_iff)
qed

lemma isValid_length: "isValidEthereumAddress a \<Longrightarrow> length a = 42"
  by (auto simp: isValid_iff)

lemma isValid_0x_lower:
  "isValidEthereumAddress (''0x'' @ toLowerCase h) = isValidEthereumAddress (''0x'' @ h)"
  by (simp add: isValid_iff toLowerCase_def list_all_hex_lower)

lemma isValid_take2: "isValidEthereumAddress a \<Longrightarrow> take 2 a = ''0x''"
  by (auto simp: isValid_iff)

text \<open>
  Claim C2. \<open>isValidEthereumAddress\<close> accepts an input exactly when the whole input is
  \<open>0x\<close> followed by 40 characters among \<open>0-9\<close>, \<open>a-f\<close>, \<open>A-F\<close>. The letter case of the 40
  characters does not matter: two hex portions with the same lower-case form are accepted
  or rejected together. Nothing may surround an accepted input: adding characters
  (white space or other) before or after it gives a rejected input.
\<close>

theorem isValidEthereumAddress_full_match:
  "(isValidEthereumAddress input \<longleftrightarrow>
      (\<exists>h. input = ''0x'' @ h \<and> length h = 40 \<and> set h \<subseteq> set ''0123456789abcdefABCDEF''))
   \<and> (toLowerCase h1 = toLowerCase h2 \<longrightarrow>
        isValidEthereumAddress (''0x'' @ h1) = isValidEthereumAddress (''0x'' @ h2))
   \<and> (isValidEthereumAddress input \<and> (w1 \<noteq> [] \<or> w2 \<noteq> []) \<longrightarrow>
        \<not> isValidEthereumAddress (w1 @ input @ w2))"
proof (intro conjI impI)
  show "isValidEthereumAddress input \<longleftrightarrow>
      (\<exists>h. input = ''0x'' @ h \<and> length h = 40 \<and> set h \<subseteq> set ''0123456789abcdefABCDEF'')"
    by (rule isValid_append_iff)
next
  assume "toLowerCase h1 = toLowerCase h2"
  then show "isValidEthereumAddress (''0x'' @ h1) = isValidEthereumAddress (''0x'' @ h2)"
    using isValid_0x_lower [of h1] isValid_0x_lower [of h2] by simp
next
  assume a: "isValidEthereumAddress input \<and> (w1 \<noteq> [] \<or> w2 \<noteq> [])"
  show "\<not> isValidEthereumAddress (w1 @ input @ w2)"
  proof
    assume "isValidEthereumAddress (w1 @ input @ w2)"
    then have "length (w1 @ input @ w2) = 42" by (rule isValid_length)
    moreover from a have "length input = 42" by (simp add: isValid_length)
    ultimately show False using a by auto
  qed
qed

theorem isValidEthereumAddress_full_match_witness:
  "isValidEthereumAddress ''0xABCDEF0123456789abcdef0123456789ABCDEF01''
   \<and> (\<exists>h. ''0xABCDEF0123456789abcdef0123456789ABCDEF01'' = ''0x'' @ h \<and> length h = 40
          \<and> set h \<subseteq> set ''0123456789abcdefABCDEF'')
   \<and> toLowerCase ''ABCDEF0123456789abcdef0123456789ABCDEF01''
       = toLowerCase ''abcdef0123456789ABCDEF0123456789abcdef01''
   \<and> isValidEthereumAddress (''0x'' @ ''ABCDEF0123456789abcdef0123456789ABCDEF01'')
       = isValidEthereumAddress (''0x'' @ ''abcdef0123456789ABCDEF0123456789abcdef01'')
   \<and> \<not> isValidEthereumAddress ('' '' @ ''0xABCDEF0123456789abcdef0123456789ABCDEF01'' @ '''')"
proof -
  have v: "isValidEthereumAddress ''0xABCDEF0123456789abcdef0123456789ABCDEF01''"
    by code_simp
  have l: "toLowerCase ''ABCDEF0123456789abcdef0123456789ABCDEF01''
       = toLowerCase ''abcdef0123456789ABCDEF0123456789abcdef01''"
    by code_simp
  have w: "'' '' \<noteq> ([] :: string)" by simp
  from v l w
    isValidEthereumAddress_full_match
      [of "''0xABCDEF0123456789abcdef0123456789ABCDEF01''"
          "''ABCDEF0123456789abcdef0123456789ABCDEF01''"
          "''abcdef0123456789ABCDEF0123456789abcdef01''" "'' ''" "''''"]
  show ?thesis by blast
qed

text \<open>
  Claim C9. A non-empty input whose first two characters are not the lower-case \<open>0x\<close> is
  rejected by \<open>register\<close> and by \<open>check\<close> with status 400 and the message
  \<open>Invalid Ethereum address format\<close>, the collection unchanged. In particular \<open>0X\<close>
  followed by 40 hex characters is rejected, although the same 40 characters after \<open>0x\<close>
  are accepted.
\<close>

theorem prefix_must_be_lowercase_0x:
  "(a \<noteq> [] \<and> take 2 a \<noteq> ''0x'' \<longrightarrow>
      register_handler e (req\<lparr>body_address := Some (JStr a)\<rparr>) s
        = (failure 400 ''Invalid Ethereum address format'', s)
      \<and> check_handler a s = (failure 400 ''Invalid Ethereum address format'', s))
   \<and> (length h = 40 \<and> set h \<subseteq> set ''0123456789abcdefABCDEF'' \<longrightarrow>
      isValidEthereumAddress (''0x'' @ h)
      \<and> register_handler e (req\<lparr>body_address := Some (JStr (''0X'' @ h))\<rparr>) s
        = (failure 400 ''Invalid Ethereum address format'', s)
      \<and> check_handler (''0X'' @ h) s = (failure 400 ''Invalid Ethereum address format'', s))"
proof -
  have rej: "register_handler e (req\<lparr>body_address := Some (JStr b)\<rparr>) s
        = (failure 400 ''Invalid Ethereum address format'', s)
      \<and> check_handler b s = (failure 400 ''Invalid Ethereum address format'', s)"
    if "b \<noteq> []" "take 2 b \<noteq> ''0x''" for b
  proof -
    from that(2) have "\<not> isValidEthereumAddress b" using isValid_take2 by blast
    with that(1) show ?thesis by (simp add: register_handler_def check_handler_def)
  qed
  have "isValidEthereumAddress (''0x'' @ h)"
    if "length h = 40 \<and> set h \<subseteq> set ''0123456789abcdefABCDEF''"
    using that isValid_append_iff by blast
  moreover have "''0X'' @ h \<noteq> []" "take 2 (''0X'' @ h) \<noteq> ''0x''" by simp_all
  ultimately show ?thesis using rej by blast
qed

theorem prefix_must_be_lowercase_0x_witness:
  "''1x'' \<noteq> [] \<and> take 2 ''1x'' \<noteq> ''0x''
   \<and> length ''ABCDEF0123456789abcdef0123456789ABCDEF01'' = 40
   \<and> set ''ABCDEF0123456789abcdef0123456789ABCDEF01'' \<subseteq> set ''0123456789abcdefABCDEF''
   \<and> register_handler \<lparr>env_now = 0, env_id = 0\<rparr>
        \<lparr>body_address = Some (JStr ''1x''), req_ip = None, remoteAddress = None, user_agent = None\<rparr> []
        = (failure 400 ''Invalid Ethereum address format'', [])
   \<and> check_handler ''0XABCDEF0123456789abcdef0123456789ABCDEF01'' []
        = (failure 400 ''Invalid Ethereum address format'', [])
   \<and> isValidEthereumAddress ''0xABCDEF0123456789abcdef0123456789ABCDEF01''"
proof -
  have h1: "''1x'' \<noteq> [] \<and> take 2 ''1x'' \<noteq> ''0x''" by simp
  have h2: "length ''ABCDEF0123456789abcdef0123456789ABCDEF01'' = 40
     \<and> set ''ABCDEF0123456789abcdef0123456789ABCDEF01'' \<subseteq> set ''0123456789abcdefABCDEF''"
    by simp
  from h1 h2
    prefix_must_be_lowercase_0x
      [of "''1x''" "\<lparr>env_now = 0, env_id = 0\<rparr>"
          "\<lparr>body_address = None, req_ip = None, remoteAddress = None, user_agent = None\<rparr>" "[]"
          "''ABCDEF0123456789abcdef0123456789ABCDEF01''"]
  show ?thesis by simp
qed

section \<open>The invariant of the collection\<close>

lemma normalized_setters: "normalized a \<Longrightarrow> address_setters a = a"
  unfolding normalized_def using address_setters_normalized [of a] by simp

lemma normalized_toLowerCase: "isValidEthereumAddress a \<Longrightarrow> normalized (toLowerCase a)"
  by (simp add: normalized_def isValid_toLowerCase toLowerCase_idem)

lemma findOne_None_iff:
  "Whitelist_findOne a s = None \<longleftrightarrow> address_setters a \<notin> set (map address s)"
  by (simp add: Whitelist_findOne_def find_None_iff image_iff) metis

lemma findOne_Some:
  "Whitelist_findOne a s = Some d \<Longrightarrow> d \<in> set s \<and> address d = address_setters a"
  by (auto simp: Whitelist_findOne_def find_Some_iff)

lemma distinct_map_remove1: "distinct (map f xs) \<Longrightarrow> distinct (map f (remove1 x xs))"
proof (induction xs)
  case Nil
  then show ?case by simp
next
  case (Cons y ys)
  then show ?case using set_remove1_subset [of x ys] by auto
qed

lemma store_inv_remove1: "store_inv s \<Longrightarrow> store_inv (remove1 d s)"
  unfolding store_inv_def list_all_iff
  using distinct_map_remove1 [of address s d] set_remove1_subset [of d s] by auto

lemma register_store_cases:
  "snd (register_handler e req s) = s \<or>
   (\<exists>a. isValidEthereumAddress a \<and> Whitelist_findOne (toLowerCase a) s = None \<and>
        snd (register_handler e req s) = s @ [new_Whitelist e (toLowerCase a)
              (js_or (req_ip req) (remoteAddress req)) (user_agent req)])"
  by (auto simp: register_handler_def Whitelist_save_def Let_def split: option.splits)

lemma address_new_Whitelist:
  "isValidEthereumAddress a \<Longrightarrow> address (new_Whitelist e (toLowerCase a) ip ua) = toLowerCase a"
  by (simp add: new_Whitelist_def address_setters_normalized)

lemma store_inv_register: 
  assumes "store_inv s" shows "store_inv (snd (register_handler e req s))"
proof -
  from register_store_cases [of e req s] show ?thesis
  proof
    assume "snd (register_handler e req s) = s"
    with assms show ?thesis by simp
  next
    assume "\<exists>a. isValidEthereumAddress a \<and> Whitelist_findOne (toLowerCase a) s = None \<and>
        snd (register_handler e req s) = s @ [new_Whitelist e (toLowerCase a)
              (js_or (req_ip req) (remoteAddress req)) (user_agent req)]"
    then obtain a where v: "isValidEthereumAddress a"
      and n: "Whitelist_findOne (toLowerCase a) s = None"
      and r: "snd (register_handler e req s) = s @ [new_Whitelist e (toLowerCase a)
              (js_or (req_ip req) (remoteAddress req)) (user_agent req)]" by blast
    from n v have "toLowerCase a \<notin> set (map address s)"
      by (simp add: findOne_None_iff address_setters_normalized)
    with assms v show ?thesis
      unfolding r store_inv_def
      by (simp add: address_new_Whitelist normalized_toLowerCase)
  qed
qed

lemma snd_check_handler: "snd (check_handler a s) = s"
  by (simp add: check_handler_def Let_def)

lemma snd_list_response: "snd (list_response page limit s) = s"
  by (simp add: list_response_def Let_def split: sum.splits)

lemma list_handler_finite:
  "list_page q = Finite page \<Longrightarrow> list_limit q = Finite limit \<Longrightarrow>
     list_handler q s = list_response page limit s"
  by (simp add: list_handler_def)

lemma list_handler_cases:
  "(\<exists>page limit. list_page q = Finite page \<and> list_limit q = Finite limit
       \<and> (\<forall>s. list_handler q s = list_response page limit s))
   \<or> (\<forall>s. list_handler q s = (internal_error, s))"
  by (cases "list_page q"; cases "list_limit q") (simp_all add: list_handler_def)

lemma snd_list_handler: "snd (list_handler q s) = s"
  using list_handler_cases [of q] by (auto simp: snd_list_response)

lemma snd_stats_handler: "snd (stats_handler c s) = s"
  by (simp add: stats_handler_def Let_def)

lemma snd_remove_handler:
  "snd (remove_handler a s) =
     (case Whitelist_findOne (toLowerCase a) s of None \<Rightarrow> s | Some d \<Rightarrow> remove1 d s)"
  by (simp add: remove_handler_def Whitelist_findOneAndDelete_def Let_def split: option.splits)

lemma store_inv_handle: "store_inv s \<Longrightarrow> store_inv (snd (handle r s))"
  by (cases r)
     (simp_all add: store_inv_register snd_check_handler snd_list_handler snd_stats_handler
        snd_remove_handler store_inv_remove1 split: option.splits)

lemma store_inv_run: "store_inv s \<Longrightarrow> store_inv (run rs s)"
  by (induction rs arbitrary: s) (simp_all add: store_inv_handle)

lemma store_inv_reachable: "store_inv (run rs [])"
  by (rule store_inv_run) (simp add: store_inv_def)

lemma filter_distinct_key:
  "distinct (map f xs) \<Longrightarrow> x \<in> set xs \<Longrightarrow> filter (\<lambda>y. f y = f x) xs = [x]"
proof (induction xs)
  case Nil
  then show ?case by simp
next
  case (Cons y ys)
  show ?case
  proof (cases "y = x")
    case True
    with Cons.prems have "\<forall>z\<in>set ys. f z \<noteq> f x" by (auto simp: image_iff)
    then have "filter (\<lambda>z. f z = f x) ys = []" by (simp add: filter_empty_conv)
    with True show ?thesis by simp
  next
    case False
    with Cons.prems have "x \<in> set ys" "f y \<noteq> f x" by auto
    with Cons show ?thesis by simp
  qed
qed

lemma isValid_nonempty: "isValidEthereumAddress a \<Longrightarrow> a \<noteq> []"
  by (auto simp: isValid_iff)

lemma register_existing:
  assumes "isValidEthereumAddress a" "Whitelist_findOne (toLowerCase a) s = Some d"
  shows "register_handler e (req\<lparr>body_address := Some (JStr a)\<rparr>) s =
     (\<lparr>status = 409,
       body = JObj [(''success'', JBool False),
                    (''message'', JStr ''Address already registered''),
                    (''registration'', registration_view d)]\<rparr>, s)"
  using assms isValid_nonempty [of a] by (simp add: register_handler_def)

lemma register_new:
  assumes "isValidEthereumAddress a" "Whitelist_findOne (toLowerCase a) s = None"
  shows "snd (register_handler e (req\<lparr>body_address := Some (JStr a)\<rparr>) s) =
     s @ [new_Whitelist e (toLowerCase a) (js_or (req_ip req) (remoteAddress req)) (user_agent req)]"
proof -
  from assms have "toLowerCase a \<notin> set (map address s)"
    by (simp add: findOne_None_iff address_setters_normalized)
  then have "\<not> list_ex (\<lambda>x. address x = toLowerCase a) s"
    by (auto simp: list_ex_iff image_iff)
  with assms isValid_nonempty [of a] show ?thesis
    by (simp add: register_handler_def Whitelist_save_def Let_def address_new_Whitelist)
qed

lemma find_append_list:
  "find P (xs @ ys) = (case find P xs of None \<Rightarrow> find P ys | Some x \<Rightarrow> Some x)"
  by (induction xs) simp_all

lemma findOne_append_new:
  assumes "isValidEthereumAddress a" "Whitelist_findOne (toLowerCase a) s = None"
  shows "Whitelist_findOne (toLowerCase a) (s @ [new_Whitelist e (toLowerCase a) ip ua]) =
     Some (new_Whitelist e (toLowerCase a) ip ua)"
proof -
  from assms(2) have "find (\<lambda>d. address d = address_setters (toLowerCase a)) s = None"
    by (simp add: Whitelist_findOne_def)
  with assms(1) show ?thesis
    by (simp add: Whitelist_findOne_def find_append_list address_new_Whitelist address_setters_normalized)
qed

section \<open>Registration\<close>

lemma distinct_normalized_addresses:
  "store_inv s \<Longrightarrow> distinct (map (\<lambda>d. toLowerCase (address d)) s)"
proof -
  assume inv: "store_inv s"
  then have e: "map (\<lambda>d. toLowerCase (address d)) s = map address s"
    by (simp add: store_inv_def list_all_iff normalized_def)
  from inv have "distinct (map address s)" by (simp add: store_inv_def)
  then show ?thesis by (simp only: e)
qed

text \<open>
  Claim C1. After every sequence of requests, started from the empty collection, no two
  stored registrations have the same normalized (lower-cased) address. When the same
  address is registered twice, in whatever letter case each call writes its hex digits,
  the second call answers 409 \<open>Address already registered\<close> with the stored address and
  the original \<open>registeredAt\<close> (that of the entry found by the first call, or the time of
  the first call when it created the entry), changes nothing, and the collection holds
  exactly one registration of that address, with that \<open>registeredAt\<close>.
\<close>

theorem one_registration_per_address:
  assumes "isValidEthereumAddress a1" and "isValidEthereumAddress a2"
    and "toLowerCase a1 = toLowerCase a2"
  shows "distinct (map (\<lambda>d. toLowerCase (address d)) (run rs []))
    \<and> (let s = run rs [];
            s1 = snd (register_handler e1 (req1\<lparr>body_address := Some (JStr a1)\<rparr>) s);
            r2 = register_handler e2 (req2\<lparr>body_address := Some (JStr a2)\<rparr>) s1;
            t = (case Whitelist_findOne (toLowerCase a1) s of
                   Some d \<Rightarrow> registeredAt d
                 | None \<Rightarrow> env_now e1)
        in fst r2 =
             \<lparr>status = 409,
              body = JObj [(''success'', JBool False),
                           (''message'', JStr ''Address already registered''),
                           (''registration'',
                              JObj [(''address'', JStr (toLowerCase a1)),
                                    (''registeredAt'', JDate t)])]\<rparr>
           \<and> snd r2 = s1
           \<and> map registeredAt (filter (\<lambda>d. address d = toLowerCase a1) (snd r2)) = [t])"
proof -
  define s where "s = run rs []"
  define s1 where "s1 = snd (register_handler e1 (req1\<lparr>body_address := Some (JStr a1)\<rparr>) s)"
  define t where "t = (case Whitelist_findOne (toLowerCase a1) s of
                   Some d \<Rightarrow> registeredAt d
                 | None \<Rightarrow> env_now e1)"
  have inv: "store_inv s" unfolding s_def by (rule store_inv_reachable)
  then have inv1: "store_inv s1" unfolding s1_def by (rule store_inv_register)
  have "\<exists>d. Whitelist_findOne (toLowerCase a1) s1 = Some d \<and> address d = toLowerCase a1
            \<and> registeredAt d = t"
  proof (cases "Whitelist_findOne (toLowerCase a1) s")
    case None
    with assms(1) have "s1 = s @ [new_Whitelist e1 (toLowerCase a1)
        (js_or (req_ip req1) (remoteAddress req1)) (user_agent req1)]"
      unfolding s1_def by (rule register_new)
    with None assms(1) show ?thesis
      by (simp add: findOne_append_new address_new_Whitelist t_def) (simp add: new_Whitelist_def)
  next
    case (Some d)
    with assms(1) have "s1 = s" unfolding s1_def by (simp add: register_existing)
    with Some assms(1) show ?thesis
      using findOne_Some [of "toLowerCase a1" s d]
      by (simp add: t_def address_setters_normalized)
  qed
  then obtain d where d: "Whitelist_findOne (toLowerCase a1) s1 = Some d"
    and ad: "address d = toLowerCase a1" and rd: "registeredAt d = t" by blast
  from d have ds: "d \<in> set s1" using findOne_Some by blast
  from d assms have r2: "register_handler e2 (req2\<lparr>body_address := Some (JStr a2)\<rparr>) s1 =
     (\<lparr>status = 409,
       body = JObj [(''success'', JBool False),
                    (''message'', JStr ''Address already registered''),
                    (''registration'', registration_view d)]\<rparr>, s1)"
    by (simp add: register_existing)
  from inv1 ds have "filter (\<lambda>y. address y = address d) s1 = [d]"
    unfolding store_inv_def by (simp add: filter_distinct_key)
  with ad have f: "filter (\<lambda>y. address y = toLowerCase a1) s1 = [d]" by simp
  from inv have "distinct (map (\<lambda>d. toLowerCase (address d)) (run rs []))"
    unfolding s_def by (rule distinct_normalized_addresses)
  moreover have "fst (register_handler e2 (req2\<lparr>body_address := Some (JStr a2)\<rparr>) s1) =
             \<lparr>status = 409,
              body = JObj [(''success'', JBool False),
                           (''message'', JStr ''Address already registered''),
                           (''registration'',
                              JObj [(''address'', JStr (toLowerCase a1)),
                                    (''registeredAt'', JDate t)])]\<rparr>"
    by (simp add: r2 registration_view_def ad rd)
  moreover have "snd (register_handler e2 (req2\<lparr>body_address := Some (JStr a2)\<rparr>) s1) = s1"
    by (simp add: r2)
  moreover have "map registeredAt (filter (\<lambda>d. address d = toLowerCase a1) s1) = [t]"
    by (simp add: f rd)
  ultimately show ?thesis
    unfolding Let_def s_def [symmetric] s1_def [symmetric] t_def [symmetric] by simp
qed


theorem one_registration_per_address_witness:
  "isValidEthereumAddress ''0xABCDEF0123456789ABCDEF0123456789ABCDEF01''
   \<and> isValidEthereumAddress ''0xabcdef0123456789abcdef0123456789ABCDEF01''
   \<and> toLowerCase ''0xABCDEF0123456789ABCDEF0123456789ABCDEF01'' = toLowerCase ''0xabcdef0123456789abcdef0123456789ABCDEF01''
   \<and> distinct (map (\<lambda>d. toLowerCase (address d))
        (run [Register \<lparr>env_now = 500, env_id = 7\<rparr>
                (example_request ''0x00000000000000000000000000000000000000a1'')] []))
   \<and> (let s = run [Register \<lparr>env_now = 500, env_id = 7\<rparr>
                (example_request ''0x00000000000000000000000000000000000000a1'')] [];
            s1 = snd (register_handler \<lparr>env_now = 1000, env_id = 8\<rparr>
                   ((example_request ''-'')\<lparr>body_address := Some (JStr ''0xABCDEF0123456789ABCDEF0123456789ABCDEF01'')\<rparr>) s);
            r2 = register_handler \<lparr>env_now = 2000, env_id = 9\<rparr>
                   ((example_request ''-'')\<lparr>body_address := Some (JStr ''0xabcdef0123456789abcdef0123456789ABCDEF01'')\<rparr>) s1;
            t = (case Whitelist_findOne (toLowerCase ''0xABCDEF0123456789ABCDEF0123456789ABCDEF01'') s of
                   Some d \<Rightarrow> registeredAt d
                 | None \<Rightarrow> env_now \<lparr>env_now = 1000, env_id = 8\<rparr>)
        in fst r2 =
             \<lparr>status = 409,
              body = JObj [(''success'', JBool False),
                           (''message'', JStr ''Address already registered''),
                           (''registration'',
                              JObj [(''address'', JStr (toLowerCase ''0xABCDEF0123456789ABCDEF0123456789ABCDEF01'')),
                                    (''registeredAt'', JDate t)])]\<rparr>
           \<and> snd r2 = s1
           \<and> map registeredAt (filter (\<lambda>d. address d = toLowerCase ''0xABCDEF0123456789ABCDEF0123456789ABCDEF01'') (snd r2)) = [t])"
proof -
  have v1: "isValidEthereumAddress ''0xABCDEF0123456789ABCDEF0123456789ABCDEF01''"
    by code_simp
  have v2: "isValidEthereumAddress ''0xabcdef0123456789abcdef0123456789ABCDEF01''"
    by code_simp
  have l: "toLowerCase ''0xABCDEF0123456789ABCDEF0123456789ABCDEF01'' = toLowerCase ''0xabcdef0123456789abcdef0123456789ABCDEF01''"
    by code_simp
  show ?thesis
    by (intro conjI v1 v2 l one_registration_per_address [OF v1 v2 l, THEN conjunct1]
          one_registration_per_address [OF v1 v2 l, THEN conjunct2])
qed

section \<open>Removal\<close>

text \<open>
  Claim C3, as the code has it. \<open>remove\<close> lower-cases its input and the query filter is
  cast by the schema (lower-cased, trimmed) before it is compared. When the input so
  normalized fails the validator, no stored registration matches in any reachable
  collection: the answer is 404 \<open>Address not found\<close> and the collection is unchanged.
\<close>

theorem remove_unmatched_not_found:
  assumes "\<not> isValidEthereumAddress (address_setters (toLowerCase a))"
  shows "remove_handler a (run rs []) = (failure 404 ''Address not found'', run rs [])"
proof -
  have inv: "store_inv (run rs [])" by (rule store_inv_reachable)
  have "Whitelist_findOne (toLowerCase a) (run rs []) = None"
  proof (cases "Whitelist_findOne (toLowerCase a) (run rs [])")
    case None
    then show ?thesis .
  next
    case (Some d)
    then have "d \<in> set (run rs [])" "address d = address_setters (toLowerCase a)"
      using findOne_Some by blast+
    with inv assms show ?thesis by (auto simp: store_inv_def list_all_iff normalized_def)
  qed
  then show ?thesis by (simp add: remove_handler_def Whitelist_findOneAndDelete_def)
qed


theorem remove_unmatched_not_found_witness:
  "\<not> isValidEthereumAddress (address_setters (toLowerCase ''0xNOT-AN-ADDRESS''))
   \<and> remove_handler ''0xNOT-AN-ADDRESS''
        (run [Register \<lparr>env_now = 1000, env_id = 1\<rparr> (example_request ''0xABCDEF0123456789ABCDEF0123456789ABCDEF01'')] [])
      = (failure 404 ''Address not found'',
         run [Register \<lparr>env_now = 1000, env_id = 1\<rparr> (example_request ''0xABCDEF0123456789ABCDEF0123456789ABCDEF01'')] [])"
proof -
  have h: "\<not> isValidEthereumAddress (address_setters (toLowerCase ''0xNOT-AN-ADDRESS''))"
    by code_simp
  show ?thesis
    by (intro conjI h remove_unmatched_not_found [OF h])
qed

text \<open>
  Claim C3 as stated fails: \<open>0X\<close> followed by 40 hex characters fails the validator, but
  its lower-case form is a stored address, so \<open>remove\<close> deletes the registration and
  answers 200. So does a stored address between a no-break space and a space, which the
  cast of the query filter trims.
\<close>

theorem remove_uppercase_prefix_counterexample:
  "\<not> isValidEthereumAddress ''0XABCDEF0123456789ABCDEF0123456789ABCDEF01''
   \<and> length (run [Register \<lparr>env_now = 1000, env_id = 1\<rparr>
                \<lparr>body_address = Some (JStr ''0xABCDEF0123456789ABCDEF0123456789ABCDEF01''),
                 req_ip = Some ''203.0.113.7'', remoteAddress = None,
                 user_agent = Some ''curl''\<rparr>] []) = 1
   \<and> remove_handler ''0XABCDEF0123456789ABCDEF0123456789ABCDEF01''
        (run [Register \<lparr>env_now = 1000, env_id = 1\<rparr>
                \<lparr>body_address = Some (JStr ''0xABCDEF0123456789ABCDEF0123456789ABCDEF01''),
                 req_ip = Some ''203.0.113.7'', remoteAddress = None,
                 user_agent = Some ''curl''\<rparr>] [])
      = (\<lparr>status = 200,
           body = JObj [(''success'', JBool True),
                        (''message'', JStr ''Address removed from whitelist'')]\<rparr>, [])
   \<and> \<not> isValidEthereumAddress (CHR 0xA0 # ''0xabcdef0123456789abcdef0123456789abcdef01 '')
   \<and> remove_handler (CHR 0xA0 # ''0xabcdef0123456789abcdef0123456789abcdef01 '')
        (run [Register \<lparr>env_now = 1000, env_id = 1\<rparr>
                \<lparr>body_address = Some (JStr ''0xABCDEF0123456789ABCDEF0123456789ABCDEF01''),
                 req_ip = Some ''203.0.113.7'', remoteAddress = None,
                 user_agent = Some ''curl''\<rparr>] [])
      = (\<lparr>status = 200,
           body = JObj [(''success'', JBool True),
                        (''message'', JStr ''Address removed from whitelist'')]\<rparr>, [])"
  by code_simp

section \<open>Statistics\<close>

lemma length_filter_mono:
  "(\<And>x. P x \<Longrightarrow> Q x) \<Longrightarrow> length (filter P xs) \<le> length (filter Q xs)"
  by (induction xs) auto

lemma countDocuments_gte_mono:
  "t \<le> u \<Longrightarrow> countDocuments_gte u s \<le> countDocuments_gte t s"
  unfolding countDocuments_gte_def
  using length_filter_mono [of "\<lambda>d. u \<le> registeredAt d" "\<lambda>d. t \<le> registeredAt d" s] by simp

lemma countDocuments_gte_le_total: "countDocuments_gte t s \<le> countDocuments s"
  by (simp add: countDocuments_gte_def countDocuments_def)

lemma week_ago_le_start_of_today: "week_ago c \<le> start_of_today c"
proof -
  have "(x div msPerDay) * msPerDay > x - msPerDay" for x :: int
  proof -
    have "0 < msPerDay" by (simp add: msPerDay_def)
    then have "x mod msPerDay < msPerDay" by simp
    moreover have "x = (x div msPerDay) * msPerDay + x mod msPerDay" by simp
    ultimately show ?thesis by linarith
  qed
  from this [of "clock_now c + tz_offset c"] have "clock_now c - msPerDay < start_of_today c"
    by (simp add: start_of_today_def)
  moreover have "0 < msPerDay" by (simp add: msPerDay_def)
  ultimately show ?thesis by (simp add: week_ago_def)
qed


text \<open>
  Claim C6. For every collection, clock reading and time-zone offset, \<open>stats\<close> answers 200
  with the number of all registrations, the number registered since local midnight and the
  number registered in the last seven days, and \<open>total \<ge> lastWeek \<ge> today \<ge> 0\<close>.
\<close>

theorem stats_counts_ordered:
  "fst (stats_handler c s) =
     \<lparr>status = 200,
      body = JObj [(''success'', JBool True),
                   (''stats'', JObj [(''total'', JNum (countDocuments s)),
                                     (''today'', JNum (countDocuments_gte (start_of_today c) s)),
                                     (''lastWeek'', JNum (countDocuments_gte (week_ago c) s))])]\<rparr>
   \<and> countDocuments s \<ge> countDocuments_gte (week_ago c) s
   \<and> countDocuments_gte (week_ago c) s \<ge> countDocuments_gte (start_of_today c) s
   \<and> countDocuments_gte (start_of_today c) s \<ge> 0"
proof (intro conjI)
  show "fst (stats_handler c s) =
     \<lparr>status = 200,
      body = JObj [(''success'', JBool True),
                   (''stats'', JObj [(''total'', JNum (countDocuments s)),
                                     (''today'', JNum (countDocuments_gte (start_of_today c) s)),
                                     (''lastWeek'', JNum (countDocuments_gte (week_ago c) s))])]\<rparr>"
    by (simp add: stats_handler_def Let_def)
  show "countDocuments_gte (week_ago c) s \<le> countDocuments s"
    by (rule countDocuments_gte_le_total)
  show "countDocuments_gte (start_of_today c) s \<le> countDocuments_gte (week_ago c) s"
    by (rule countDocuments_gte_mono) (rule week_ago_le_start_of_today)
  show "0 \<le> countDocuments_gte (start_of_today c) s"
    by (simp add: countDocuments_gte_def)
qed


theorem stats_counts_ordered_witness:
  "fst (stats_handler \<lparr>clock_now = 90000000, tz_offset = 3600000\<rparr> example_store) =
     \<lparr>status = 200,
      body = JObj [(''success'', JBool True),
                   (''stats'', JObj [(''total'', JNum (countDocuments example_store)),
                                     (''today'', JNum (countDocuments_gte
                                        (start_of_today \<lparr>clock_now = 90000000, tz_offset = 3600000\<rparr>)
                                        example_store)),
                                     (''lastWeek'', JNum (countDocuments_gte
                                        (week_ago \<lparr>clock_now = 90000000, tz_offset = 3600000\<rparr>)
                                        example_store))])]\<rparr>
   \<and> countDocuments example_store
        \<ge> countDocuments_gte (week_ago \<lparr>clock_now = 90000000, tz_offset = 3600000\<rparr>) example_store
   \<and> countDocuments_gte (week_ago \<lparr>clock_now = 90000000, tz_offset = 3600000\<rparr>) example_store
        \<ge> countDocuments_gte (start_of_today \<lparr>clock_now = 90000000, tz_offset = 3600000\<rparr>) example_store
   \<and> countDocuments_gte (start_of_today \<lparr>clock_now = 90000000, tz_offset = 3600000\<rparr>) example_store
        \<ge> 0"
  by (rule stats_counts_ordered)

section \<open>The reading requests\<close>

lemma run_reads: "list_all is_read rs \<Longrightarrow> run rs s = s"
proof (induction rs arbitrary: s)
  case Nil
  then show ?case by simp
next
  case (Cons r rs)
  then have "snd (handle r s) = s"
    by (cases r) (simp_all add: snd_check_handler snd_list_handler snd_stats_handler)
  with Cons show ?case by simp
qed

text \<open>
  Claim C8. \<open>check\<close>, \<open>list\<close> and \<open>stats\<close> return the collection they were given, whatever
  their input; so does any sequence of such requests. Every registration and every field
  of it is as before.
\<close>

theorem reads_leave_store_unchanged:
  "snd (check_handler a s) = s \<and> snd (list_handler q s) = s \<and> snd (stats_handler c s) = s
   \<and> (list_all is_read rs \<longrightarrow> run rs s = s)"
  by (simp add: snd_check_handler snd_list_handler snd_stats_handler run_reads)

theorem reads_leave_store_unchanged_witness:
  "list_all is_read
     [Check ''0xABCDEF0123456789ABCDEF0123456789ABCDEF01'', ListRegistrations \<lparr>q_page = Some ''2'', q_limit = Some ''1''\<rparr>,
      Stats \<lparr>clock_now = 90000000, tz_offset = 0\<rparr>]
   \<and> snd (check_handler ''0xABCDEF0123456789ABCDEF0123456789ABCDEF01'' example_store) = example_store
   \<and> snd (list_handler \<lparr>q_page = Some ''2'', q_limit = Some ''1''\<rparr> example_store) = example_store
   \<and> snd (stats_handler \<lparr>clock_now = 90000000, tz_offset = 0\<rparr> example_store) = example_store
   \<and> run [Check ''0xABCDEF0123456789ABCDEF0123456789ABCDEF01'', ListRegistrations \<lparr>q_page = Some ''2'', q_limit = Some ''1''\<rparr>,
           Stats \<lparr>clock_now = 90000000, tz_offset = 0\<rparr>] example_store = example_store"
proof -
  have r: "list_all is_read
     [Check ''0xABCDEF0123456789ABCDEF0123456789ABCDEF01'', ListRegistrations \<lparr>q_page = Some ''2'', q_limit = Some ''1''\<rparr>,
      Stats \<lparr>clock_now = 90000000, tz_offset = 0\<rparr>]"
    by simp
  from r reads_leave_store_unchanged
      [of "''0xABCDEF0123456789ABCDEF0123456789ABCDEF01''" example_store "\<lparr>q_page = Some ''2'', q_limit = Some ''1''\<rparr>"
          "\<lparr>clock_now = 90000000, tz_offset = 0\<rparr>"
          "[Check ''0xABCDEF0123456789ABCDEF0123456789ABCDEF01'', ListRegistrations \<lparr>q_page = Some ''2'', q_limit = Some ''1''\<rparr>,
            Stats \<lparr>clock_now = 90000000, tz_offset = 0\<rparr>]"]
  show ?thesis by blast
qed

section \<open>Listing\<close>

lemma list_response_pos:
  assumes "0 < page" "0 < limit"
  shows "list_response page limit s =
    (\<lparr>status = 200,
      body = JObj [(''success'', JBool True),
                   (''count'', JNum (int (length
                      (take (nat limit) (drop (nat ((page - 1) * limit)) (sort_registeredAt_desc s)))))),
                   (''total'', JNum (int (length s))),
                   (''page'', JNum page),
                   (''totalPages'', JNum (- ((- int (length s)) div limit))),
                   (''registrations'', JArr (map select_address_registeredAt
                      (take (nat limit) (drop (nat ((page - 1) * limit)) (sort_registeredAt_desc s)))))]\<rparr>,
     s)"
proof -
  from assms have fp: "Whitelist_find_page (list_skip page limit) limit s =
      Inr (take (nat limit) (drop (nat ((page - 1) * limit)) (sort_registeredAt_desc s)))"
    by (simp add: Whitelist_find_page_def list_skip_def apply_limit_def mult_less_0_iff)
  from assms(2) show ?thesis
    by (simp add: list_response_def fp countDocuments_def math_ceil_div_def Let_def)
qed

lemma concat_pages:
  "concat (map (\<lambda>p. take n (drop (p * n) xs)) [0..<k]) = take (k * n) xs"
proof (induction k)
  case 0
  then show ?case by simp
next
  case (Suc k)
  have "take (Suc k * n) xs = take (k * n) xs @ take n (drop (k * n) xs)"
    using take_add [of "k * n" n xs] by (simp add: add.commute)
  with Suc show ?case by simp
qed

lemma ceil_div_covers:
  assumes "0 < limit"
  shows "int (length xs) \<le> (- ((- int (length xs)) div limit)) * limit"
proof -
  have "(- int (length xs)) div limit * limit \<le> - int (length xs)"
    using assms by (metis div_mult_mod_eq le_add_same_cancel1 pos_mod_sign)
  then show ?thesis by (simp add: algebra_simps)
qed

lemma sorted_desc: "sorted_wrt (\<lambda>a b. registeredAt a \<ge> registeredAt b) (sort_registeredAt_desc s)"
proof -
  have "sorted (map (\<lambda>d. - registeredAt d) (sort_key (\<lambda>d. - registeredAt d) s))"
    by (rule sorted_sort_key)
  then show ?thesis
    by (simp add: sort_registeredAt_desc_def sorted_wrt_map)
qed

lemma registrations_of_page:
  assumes "0 < limit"
  shows "json_elements (json_field ''registrations''
            (body (fst (list_response (int (Suc p)) limit s)))) =
         map select_address_registeredAt
           (take (nat limit) (drop (p * nat limit) (sort_registeredAt_desc s)))"
proof -
  have "nat ((int (Suc p) - 1) * limit) = p * nat limit"
    using assms by (simp add: nat_mult_distrib)
  with assms show ?thesis
    by (simp add: list_response_pos)
qed

lemma all_pages:
  assumes "0 < limit"
  shows "concat (map (\<lambda>p. json_elements (json_field ''registrations''
            (body (fst (list_response (int p) limit s)))))
           [1..<Suc (nat (- ((- int (length s)) div limit)))])
         = map select_address_registeredAt (sort_registeredAt_desc s)"
proof -
  let ?T = "nat (- ((- int (length s)) div limit))"
  let ?xs = "sort_registeredAt_desc s"
  have "[1..<Suc ?T] = map Suc [0..<?T]" by (simp add: map_Suc_upt)
  then have "concat (map (\<lambda>p. json_elements (json_field ''registrations''
            (body (fst (list_response (int p) limit s))))) [1..<Suc ?T])
     = concat (map (\<lambda>p. map select_address_registeredAt
           (take (nat limit) (drop (p * nat limit) ?xs))) [0..<?T])"
    using assms by (simp only: map_map o_def registrations_of_page)
  also have "\<dots> = map select_address_registeredAt
       (concat (map (\<lambda>p. take (nat limit) (drop (p * nat limit) ?xs)) [0..<?T]))"
    by (simp add: map_concat o_def)
  also have "\<dots> = map select_address_registeredAt (take (?T * nat limit) ?xs)"
    by (simp only: concat_pages)
  also have "take (?T * nat limit) ?xs = ?xs"
  proof -
    have c: "int (length s) \<le> (- ((- int (length s)) div limit)) * limit"
      using assms by (rule ceil_div_covers)
    have nn: "0 \<le> - ((- int (length s)) div limit)"
    proof (rule ccontr)
      assume "\<not> 0 \<le> - ((- int (length s)) div limit)"
      with assms have "(- ((- int (length s)) div limit)) * limit < 0"
        by (simp add: mult_neg_pos)
      with c show False by linarith
    qed
    from nn assms have e: "int (?T * nat limit) = (- ((- int (length s)) div limit)) * limit"
      by simp
    have "int (length s) \<le> int (?T * nat limit)" unfolding e by (rule c)
    then have "length s \<le> ?T * nat limit" by (simp only: of_nat_le_iff)
    then show ?thesis by (simp add: sort_registeredAt_desc_def)
  qed
  finally show ?thesis .
qed


text \<open>
  Claim C5. For positive \<open>page\<close> and \<open>limit\<close>, \<open>list\<close> answers 200 with \<open>total\<close> the
  number of all registrations, \<open>totalPages\<close> the ceiling of \<open>total / limit\<close>, as
  \<open>registrations\<close> the \<open>limit\<close> rows after the first \<open>skip = (page - 1) * limit\<close> of the
  registrations sorted by \<open>registeredAt\<close> descending, and \<open>count\<close> the length of that
  slice. The slices of pages 1 to \<open>totalPages\<close>, one after the other, are the rows of all
  registrations in that order: the order is descending in \<open>registeredAt\<close> and holds every
  registration exactly once.
\<close>

theorem list_pagination:
  assumes "0 < page" and "0 < limit"
  shows "fst (list_response page limit s) =
      \<lparr>status = 200,
       body = JObj [(''success'', JBool True),
                    (''count'', JNum (int (length
                       (take (nat limit) (drop (nat (list_skip page limit)) (sort_registeredAt_desc s)))))),
                    (''total'', JNum (int (length s))),
                    (''page'', JNum page),
                    (''totalPages'', JNum \<lceil>real (length s) / real_of_int limit\<rceil>),
                    (''registrations'', JArr (map select_address_registeredAt
                       (take (nat limit) (drop (nat (list_skip page limit)) (sort_registeredAt_desc s)))))]\<rparr>
    \<and> list_skip page limit = (page - 1) * limit
    \<and> concat (map (\<lambda>p. json_elements (json_field ''registrations''
                  (body (fst (list_response (int p) limit s)))))
         [1..<Suc (nat \<lceil>real (length s) / real_of_int limit\<rceil>)])
        = map select_address_registeredAt (sort_registeredAt_desc s)
    \<and> sorted_wrt (\<lambda>a b. registeredAt a \<ge> registeredAt b) (sort_registeredAt_desc s)
    \<and> mset (sort_registeredAt_desc s) = mset s"
proof -
  have c: "\<lceil>real (length s) / real_of_int limit\<rceil> = - ((- int (length s)) div limit)"
    using ceiling_divide_eq_div [of "int (length s)" limit, where 'a = real] by simp
  have r: "list_skip page limit = (page - 1) * limit" by (simp add: list_skip_def)
  show ?thesis unfolding c
  proof (intro conjI)
    show "fst (list_response page limit s) =
      \<lparr>status = 200,
       body = JObj [(''success'', JBool True),
                    (''count'', JNum (int (length
                       (take (nat limit) (drop (nat (list_skip page limit)) (sort_registeredAt_desc s)))))),
                    (''total'', JNum (int (length s))),
                    (''page'', JNum page),
                    (''totalPages'', JNum (- ((- int (length s)) div limit))),
                    (''registrations'', JArr (map select_address_registeredAt
                       (take (nat limit) (drop (nat (list_skip page limit)) (sort_registeredAt_desc s)))))]\<rparr>"
      unfolding r list_response_pos [OF assms] by simp
    show "list_skip page limit = (page - 1) * limit" by (rule r)
    show "concat (map (\<lambda>p. json_elements (json_field ''registrations''
                  (body (fst (list_response (int p) limit s)))))
         [1..<Suc (nat (- ((- int (length s)) div limit)))])
        = map select_address_registeredAt (sort_registeredAt_desc s)"
      using assms(2) by (rule all_pages)
    show "sorted_wrt (\<lambda>a b. registeredAt a \<ge> registeredAt b) (sort_registeredAt_desc s)"
      by (rule sorted_desc)
    show "mset (sort_registeredAt_desc s) = mset s"
      by (simp add: sort_registeredAt_desc_def)
  qed
qed


theorem list_pagination_witness:
  "(0::int) < 2 \<and> (0::int) < 2
   \<and> list_handler \<lparr>q_page = Some ''2'', q_limit = Some ''2''\<rparr> example_store
       = list_response 2 2 example_store
   \<and> fst (list_response 2 2 example_store) =
      \<lparr>status = 200,
       body = JObj [(''success'', JBool True),
                    (''count'', JNum (int (length
                       (take (nat 2) (drop (nat (list_skip 2 2)) (sort_registeredAt_desc example_store)))))),
                    (''total'', JNum (int (length example_store))),
                    (''page'', JNum 2),
                    (''totalPages'', JNum \<lceil>real (length example_store) / real_of_int 2\<rceil>),
                    (''registrations'', JArr (map select_address_registeredAt
                       (take (nat 2) (drop (nat (list_skip 2 2)) (sort_registeredAt_desc example_store)))))]\<rparr>
   \<and> list_skip 2 2 = (2 - 1) * 2
   \<and> concat (map (\<lambda>p. json_elements (json_field ''registrations''
                  (body (fst (list_response (int p) 2 example_store)))))
         [1..<Suc (nat \<lceil>real (length example_store) / real_of_int 2\<rceil>)])
        = map select_address_registeredAt (sort_registeredAt_desc example_store)
   \<and> sorted_wrt (\<lambda>a b. registeredAt a \<ge> registeredAt b) (sort_registeredAt_desc example_store)
   \<and> mset (sort_registeredAt_desc example_store) = mset example_store"
proof -
  have p: "(0::int) < 2" by simp
  have n: "parseInt ''2'' = Finite 2" by code_simp
  have h: "list_handler \<lparr>q_page = Some ''2'', q_limit = Some ''2''\<rparr> example_store
       = list_response 2 2 example_store"
    by (simp add: list_handler_def list_page_def list_limit_def parseInt_or_def ToString_def n)
  show ?thesis
    by (intro conjI p h list_pagination [OF p p, THEN conjunct1]
          list_pagination [OF p p, THEN conjunct2])
qed

text \<open>
  Claim C10. For positive \<open>page\<close> and \<open>limit\<close>, the \<open>registrations\<close> array of \<open>list\<close> has
  \<open>max 0 (min limit (total - (page - 1) * limit))\<close> elements, which is also \<open>count\<close>. A
  page that starts at or after the end of the collection has an empty array, while
  \<open>total\<close> and \<open>totalPages\<close> are those of page 1.
\<close>

theorem list_slice_length:
  assumes "0 < page" and "0 < limit"
  shows "status (fst (list_response page limit s)) = 200
    \<and> length (json_elements (json_field ''registrations'' (body (fst (list_response page limit s)))))
        = nat (max 0 (min limit (int (length s) - (page - 1) * limit)))
    \<and> json_field ''count'' (body (fst (list_response page limit s)))
        = JNum (max 0 (min limit (int (length s) - (page - 1) * limit)))
    \<and> json_field ''total'' (body (fst (list_response page limit s))) = JNum (int (length s))
    \<and> json_field ''total'' (body (fst (list_response 1 limit s))) = JNum (int (length s))
    \<and> json_field ''totalPages'' (body (fst (list_response page limit s)))
        = JNum \<lceil>real (length s) / real_of_int limit\<rceil>
    \<and> json_field ''totalPages'' (body (fst (list_response 1 limit s)))
        = JNum \<lceil>real (length s) / real_of_int limit\<rceil>
    \<and> (int (length s) \<le> (page - 1) * limit \<longrightarrow>
         json_field ''registrations'' (body (fst (list_response page limit s))) = JArr [])"
proof -
  have c: "\<lceil>real (length s) / real_of_int limit\<rceil> = - ((- int (length s)) div limit)"
    using ceiling_divide_eq_div [of "int (length s)" limit, where 'a = real] by simp
  from assms have "0 \<le> (page - 1) * limit" by simp
  then obtain k where k: "(page - 1) * limit = int k" using nonneg_int_cases by blast
  from assms obtain l where l: "limit = int l" using nonneg_int_cases [of limit] by auto
  have len: "int (min (length s - k) l) = max 0 (min (int l) (int (length s) - int k))"
    by (cases "k \<le> length s") (auto simp: min_def max_def of_nat_diff)
  have one: "(0::int) < 1" by simp
  show ?thesis
    unfolding c list_response_pos [OF assms] list_response_pos [OF one assms(2)] k
    using len by (simp add: l sort_registeredAt_desc_def)
qed


theorem list_slice_length_witness:
  "(0::int) < 3 \<and> (0::int) < 2 \<and> int (length example_store) \<le> (3 - 1) * 2
   \<and> list_handler \<lparr>q_page = Some ''3'', q_limit = Some ''2''\<rparr> example_store
       = list_response 3 2 example_store
   \<and> status (fst (list_response 3 2 example_store)) = 200
   \<and> length (json_elements (json_field ''registrations'' (body (fst (list_response 3 2 example_store)))))
        = nat (max 0 (min 2 (int (length example_store) - (3 - 1) * 2)))
   \<and> json_field ''count'' (body (fst (list_response 3 2 example_store)))
        = JNum (max 0 (min 2 (int (length example_store) - (3 - 1) * 2)))
   \<and> json_field ''total'' (body (fst (list_response 3 2 example_store))) = JNum (int (length example_store))
   \<and> json_field ''total'' (body (fst (list_response 1 2 example_store))) = JNum (int (length example_store))
   \<and> json_field ''totalPages'' (body (fst (list_response 3 2 example_store)))
        = JNum \<lceil>real (length example_store) / real_of_int 2\<rceil>
   \<and> json_field ''totalPages'' (body (fst (list_response 1 2 example_store)))
        = JNum \<lceil>real (length example_store) / real_of_int 2\<rceil>
   \<and> json_field ''registrations'' (body (fst (list_response 3 2 example_store))) = JArr []"
proof -
  have p: "(0::int) < 3" and l: "(0::int) < 2" by simp_all
  have b: "int (length example_store) \<le> (3 - 1) * 2" by (simp add: example_store_def)
  have n3: "parseInt ''3'' = Finite 3" and n2: "parseInt ''2'' = Finite 2" by code_simp+
  have h: "list_handler \<lparr>q_page = Some ''3'', q_limit = Some ''2''\<rparr> example_store
       = list_response 3 2 example_store"
    by (simp add: list_handler_def list_page_def list_limit_def parseInt_or_def ToString_def n3 n2)
  from p l b h list_slice_length [OF p l, of example_store] show ?thesis by blast
qed

lemma parseInt_undefined: "parseInt ''undefined'' = NaN"
  by code_simp

lemma status_list_response: "status (fst (list_response page limit s)) \<noteq> 400"
  by (simp add: list_response_def internal_error_def failure_def Let_def split: sum.splits)

lemma status_list_handler: "status (fst (list_handler q s)) \<noteq> 400"
  using list_handler_cases [of q]
  by (auto simp: status_list_response internal_error_def failure_def)

lemma bit_length_le: "m < 2 ^ k \<Longrightarrow> bit_length m \<le> k"
proof (induction k arbitrary: m)
  case 0
  then have "m \<le> 0" by simp
  then show ?case by simp
next
  case (Suc k)
  show ?case
  proof (cases "m \<le> 0")
    case True
    then show ?thesis by simp
  next
    case False
    from Suc.prems have "m div 2 < 2 ^ k" by simp
    then have "bit_length (m div 2) \<le> k" by (rule Suc.IH)
    with False show ?thesis by (subst bit_length.simps) simp
  qed
qed

lemma nearest_double_exact:
  assumes "\<bar>n\<bar> < 2 ^ 53"
  shows "nearest_double n = Finite n"
proof -
  from assms have "bit_length \<bar>n\<bar> \<le> 53" by (rule bit_length_le)
  then have "round_double \<bar>n\<bar> = Some \<bar>n\<bar>" by (simp add: round_double_def)
  then show ?thesis by (simp add: nearest_double_def)
qed

lemma decimal_digit_iff: "digit_value c < 10 \<longleftrightarrow> char_between CHR ''0'' CHR ''9'' c"
  by (auto simp: digit_value_def char_between_def)

lemma decimal_digit_plain:
  assumes "digit_value c < 10"
  shows "\<not> is_js_space c" and "c \<noteq> CHR ''+''" and "c \<noteq> CHR ''-''"
    and "c \<noteq> CHR ''x''" and "c \<noteq> CHR ''X''"
  using assms by (auto simp: decimal_digit_iff char_between_def is_js_space_def)

lemma parseInt_no_digit:
  assumes "\<not> is_js_space c" and "c \<noteq> CHR ''+''" and "c \<noteq> CHR ''-''"
    and "10 \<le> digit_value c"
  shows "parseInt (c # rest) = NaN"
proof -
  from assms(4) have "c \<noteq> CHR ''0''"
    by (auto simp: digit_value_def char_between_def)
  with assms show ?thesis by (simp add: parseInt_def parse_digits_def Let_def)
qed

lemma parseInt_empty: "parseInt [] = NaN"
  by (simp add: parseInt_def parse_digits_def)

lemma takeWhile_run:
  assumes "list_all P ds" and "rest = [] \<or> \<not> P (hd rest)"
  shows "takeWhile P (ds @ rest) = ds"
proof -
  from assms(2) have "takeWhile P rest = []" by (cases rest) auto
  with assms(1) show ?thesis by (simp add: takeWhile_append2 list_all_iff)
qed

lemma no_hex_prefix:
  assumes "ds \<noteq> []" and "list_all (\<lambda>d. digit_value d < 10) ds"
    and "\<not> (ds = ''0'' \<and> rest \<noteq> [] \<and> (hd rest = CHR ''x'' \<or> hd rest = CHR ''X''))"
  shows "take 2 (ds @ rest) \<noteq> ''0x''" and "take 2 (ds @ rest) \<noteq> ''0X''"
proof -
  from assms(1) obtain d ds' where ds: "ds = d # ds'" by (cases ds) auto
  show "take 2 (ds @ rest) \<noteq> ''0x''"
  proof (cases ds')
    case Nil
    with ds assms(3) show ?thesis by (cases rest) auto
  next
    case (Cons e es)
    with ds assms(2) have "e \<noteq> CHR ''x''" using decimal_digit_plain(4) [of e] by auto
    with ds Cons show ?thesis by simp
  qed
  show "take 2 (ds @ rest) \<noteq> ''0X''"
  proof (cases ds')
    case Nil
    with ds assms(3) show ?thesis by (cases rest) auto
  next
    case (Cons e es)
    with ds assms(2) have "e \<noteq> CHR ''X''" using decimal_digit_plain(5) [of e] by auto
    with ds Cons show ?thesis by simp
  qed
qed

lemma parse_digits_decimal:
  assumes "ds \<noteq> []" and "list_all (\<lambda>d. digit_value d < 10) ds"
    and "rest = [] \<or> 10 \<le> digit_value (hd rest)"
    and "\<not> (ds = ''0'' \<and> rest \<noteq> [] \<and> (hd rest = CHR ''x'' \<or> hd rest = CHR ''X''))"
  shows "parse_digits k (ds @ rest)
         = nearest_double (k * foldl (\<lambda>acc c. acc * 10 + int (digit_value c)) 0 ds)"
proof -
  from assms(3) have r: "rest = [] \<or> \<not> digit_value (hd rest) < 10" by auto
  have tw: "takeWhile (\<lambda>c. digit_value c < 10) (ds @ rest) = ds"
    using assms(2) r by (rule takeWhile_run)
  from assms(1,2,4) have nh: "take 2 (ds @ rest) \<noteq> ''0x''" "take 2 (ds @ rest) \<noteq> ''0X''"
    by (rule no_hex_prefix)+
  show ?thesis unfolding parse_digits_def Let_def
    using nh tw assms(1) by (simp only: if_False simp_thms) simp
qed

lemma parseInt_decimal:
  assumes ws: "list_all is_js_space ws"
    and sg: "sg = [] \<or> sg = ''+'' \<or> sg = ''-''"
    and ds: "ds \<noteq> []" "list_all (\<lambda>d. digit_value d < 10) ds"
    and rest: "rest = [] \<or> 10 \<le> digit_value (hd rest)"
    and nohex: "\<not> (ds = ''0'' \<and> rest \<noteq> [] \<and> (hd rest = CHR ''x'' \<or> hd rest = CHR ''X''))"
  shows "parseInt (ws @ sg @ ds @ rest) =
     nearest_double ((if sg = ''-'' then - 1 else 1)
        * foldl (\<lambda>acc c. acc * 10 + int (digit_value c)) 0 ds)"
proof -
  from ds(1) obtain d ds' where dsc: "ds = d # ds'" by (cases ds) auto
  with ds(2) have d: "digit_value d < 10" by simp
  note dp = decimal_digit_plain [OF d]
  have hdns: "\<not> is_js_space (hd (sg @ ds @ rest))"
    using sg dsc dp(1) by (auto simp: is_js_space_def)
  have ne: "sg @ ds @ rest \<noteq> []" using ds(1) by simp
  have "dropWhile is_js_space (ws @ sg @ ds @ rest) = dropWhile is_js_space (sg @ ds @ rest)"
    using ws by (simp add: dropWhile_append2 list_all_iff)
  also have "\<dots> = sg @ ds @ rest"
    using ne hdns by (cases "sg @ ds @ rest") auto
  finally have dw: "dropWhile is_js_space (ws @ sg @ ds @ rest) = sg @ ds @ rest" .
  have pi: "parseInt (ws @ sg @ ds @ rest) =
     (let S = sg @ ds @ rest;
          sign = (if S \<noteq> [] \<and> hd S = CHR ''-'' then - 1 else (1::int));
          S = (if S \<noteq> [] \<and> (hd S = CHR ''+'' \<or> hd S = CHR ''-'') then tl S else S)
      in parse_digits sign S)"
    unfolding parseInt_def dw ..
  note body = parse_digits_decimal [OF ds rest nohex]
  from sg show ?thesis
  proof (elim disjE)
    assume e: "sg = []"
    have h: "hd (ds @ rest) \<noteq> CHR ''+''" "hd (ds @ rest) \<noteq> CHR ''-''"
      using dsc dp by simp_all
    show ?thesis
      using pi h ds(1) unfolding e by (simp add: Let_def body)
  next
    assume e: "sg = ''+''"
    show ?thesis
      using pi unfolding e by (simp add: Let_def body)
  next
    assume e: "sg = ''-''"
    show ?thesis
      using pi unfolding e by (simp add: Let_def body)
  qed
qed

text \<open>
  Claim C4, as the code has it. \<open>page\<close> is 1 and \<open>limit\<close> is 50 when the parameter is
  absent, when \<open>parseInt\<close> finds no leading integer in it (\<open>NaN\<close>) and when the integer it
  reads is 0. Every other result of \<open>parseInt\<close>, negative ones included, is taken as it
  is, and finite values go into \<open>skip = (page - 1) * limit\<close> and the query. The handler
  never answers 400. What \<open>parseInt\<close> reads: nothing from the empty string or when the
  first character is neither white space, a sign nor a decimal digit; after white space
  and an optional sign, the leading run of decimal digits, whatever follows it, as the
  nearest number, which is the integer itself below \<open>2^53\<close>.
\<close>

theorem page_limit_coercion:
  "(q_page q = None \<longrightarrow> list_page q = Finite 1)
   \<and> (q_limit q = None \<longrightarrow> list_limit q = Finite 50)
   \<and> (q_page q = Some v \<and> (parseInt v = NaN \<or> parseInt v = Finite 0) \<longrightarrow> list_page q = Finite 1)
   \<and> (q_limit q = Some w \<and> (parseInt w = NaN \<or> parseInt w = Finite 0) \<longrightarrow> list_limit q = Finite 50)
   \<and> (q_page q = Some v \<and> parseInt v \<noteq> NaN \<and> parseInt v \<noteq> Finite 0 \<longrightarrow> list_page q = parseInt v)
   \<and> (q_limit q = Some w \<and> parseInt w \<noteq> NaN \<and> parseInt w \<noteq> Finite 0 \<longrightarrow> list_limit q = parseInt w)
   \<and> (list_page q = Finite page \<and> list_limit q = Finite limit \<longrightarrow>
        list_handler q s = list_response page limit s
        \<and> list_skip page limit = (page - 1) * limit)
   \<and> status (fst (list_handler q s)) \<noteq> 400
   \<and> parseInt [] = NaN
   \<and> (\<not> is_js_space c \<and> c \<noteq> CHR ''+'' \<and> c \<noteq> CHR ''-'' \<and> 10 \<le> digit_value c \<longrightarrow>
        parseInt (c # tail) = NaN)
   \<and> (list_all is_js_space ws \<and> (sg = [] \<or> sg = ''+'' \<or> sg = ''-'')
        \<and> ds \<noteq> [] \<and> list_all (\<lambda>d. digit_value d < 10) ds
        \<and> (rest = [] \<or> 10 \<le> digit_value (hd rest))
        \<and> \<not> (ds = ''0'' \<and> rest \<noteq> [] \<and> (hd rest = CHR ''x'' \<or> hd rest = CHR ''X'')) \<longrightarrow>
        parseInt (ws @ sg @ ds @ rest) =
          nearest_double ((if sg = ''-'' then - 1 else 1)
             * foldl (\<lambda>acc c. acc * 10 + int (digit_value c)) 0 ds))
   \<and> (\<bar>n\<bar> < 2 ^ 53 \<longrightarrow> nearest_double n = Finite n)"
proof (intro conjI impI)
  show "list_page q = Finite 1" if "q_page q = None"
    using that by (simp add: list_page_def parseInt_or_def ToString_def parseInt_undefined)
  show "list_limit q = Finite 50" if "q_limit q = None"
    using that by (simp add: list_limit_def parseInt_or_def ToString_def parseInt_undefined)
  show "list_page q = Finite 1"
    if "q_page q = Some v \<and> (parseInt v = NaN \<or> parseInt v = Finite 0)"
    using that by (auto simp: list_page_def parseInt_or_def ToString_def)
  show "list_limit q = Finite 50"
    if "q_limit q = Some w \<and> (parseInt w = NaN \<or> parseInt w = Finite 0)"
    using that by (auto simp: list_limit_def parseInt_or_def ToString_def)
  show "list_page q = parseInt v"
    if "q_page q = Some v \<and> parseInt v \<noteq> NaN \<and> parseInt v \<noteq> Finite 0"
    using that by (cases "parseInt v") (auto simp: list_page_def parseInt_or_def ToString_def)
  show "list_limit q = parseInt w"
    if "q_limit q = Some w \<and> parseInt w \<noteq> NaN \<and> parseInt w \<noteq> Finite 0"
    using that by (cases "parseInt w") (auto simp: list_limit_def parseInt_or_def ToString_def)
  show "list_handler q s = list_response page limit s"
    if "list_page q = Finite page \<and> list_limit q = Finite limit"
    using that by (simp add: list_handler_finite)
  show "list_skip page limit = (page - 1) * limit"
    by (simp add: list_skip_def)
  show "status (fst (list_handler q s)) \<noteq> 400"
    by (rule status_list_handler)
  show "parseInt [] = NaN"
    by (rule parseInt_empty)
  show "parseInt (c # tail) = NaN"
    if "\<not> is_js_space c \<and> c \<noteq> CHR ''+'' \<and> c \<noteq> CHR ''-'' \<and> 10 \<le> digit_value c"
    using that by (simp add: parseInt_no_digit)
  show "parseInt (ws @ sg @ ds @ rest) =
          nearest_double ((if sg = ''-'' then - 1 else 1)
             * foldl (\<lambda>acc c. acc * 10 + int (digit_value c)) 0 ds)"
    if "list_all is_js_space ws \<and> (sg = [] \<or> sg = ''+'' \<or> sg = ''-'')
        \<and> ds \<noteq> [] \<and> list_all (\<lambda>d. digit_value d < 10) ds
        \<and> (rest = [] \<or> 10 \<le> digit_value (hd rest))
        \<and> \<not> (ds = ''0'' \<and> rest \<noteq> [] \<and> (hd rest = CHR ''x'' \<or> hd rest = CHR ''X''))"
    using that by (intro parseInt_decimal) simp_all
  show "nearest_double n = Finite n" if "\<bar>n\<bar> < 2 ^ 53"
    using that by (rule nearest_double_exact)
qed

theorem page_limit_coercion_witness:
  "list_page \<lparr>q_page = None, q_limit = None\<rparr> = Finite 1
   \<and> list_limit \<lparr>q_page = None, q_limit = None\<rparr> = Finite 50
   \<and> parseInt ''abc'' = NaN
   \<and> list_page \<lparr>q_page = Some ''abc'', q_limit = Some ''0''\<rparr> = Finite 1
   \<and> parseInt ''0'' = Finite 0
   \<and> list_limit \<lparr>q_page = Some ''abc'', q_limit = Some ''0''\<rparr> = Finite 50
   \<and> parseInt ''-3'' = Finite (- 3)
   \<and> list_page \<lparr>q_page = Some ''-3'', q_limit = Some ''-7''\<rparr> = Finite (- 3)
   \<and> parseInt ''-7'' = Finite (- 7)
   \<and> list_limit \<lparr>q_page = Some ''-3'', q_limit = Some ''-7''\<rparr> = Finite (- 7)
   \<and> list_handler \<lparr>q_page = Some ''-3'', q_limit = Some ''-7''\<rparr> example_store
       = list_response (- 3) (- 7) example_store
   \<and> list_skip (- 3) (- 7) = (- 3 - 1) * - 7
   \<and> status (fst (list_handler \<lparr>q_page = Some ''-3'', q_limit = Some ''-7''\<rparr> example_store)) \<noteq> 400
   \<and> parseInt (CHR 0xA0 # '' -12abc'') = Finite (- 12)"
proof -
  note inst1 = page_limit_coercion [where q = "\<lparr>q_page = None, q_limit = None\<rparr>"]
  note inst2 = page_limit_coercion
    [where q = "\<lparr>q_page = Some ''abc'', q_limit = Some ''0''\<rparr>" and v = "''abc''" and w = "''0''"
       and c = "CHR ''a''" and tail = "''bc''"]
  note inst3 = page_limit_coercion
    [where q = "\<lparr>q_page = Some ''-3'', q_limit = Some ''-7''\<rparr>" and v = "''-3''" and w = "''-7''"
       and page = "- 3" and limit = "- 7" and s = example_store
       and ws = "[CHR 0xA0, CHR '' '']" and sg = "''-''" and ds = "''12''" and rest = "''abc''"
       and n = "- 12"]
  have a0: "\<not> is_js_space CHR ''a'' \<and> CHR ''a'' \<noteq> CHR ''+'' \<and> CHR ''a'' \<noteq> CHR ''-''
      \<and> 10 \<le> digit_value CHR ''a''"
    by code_simp
  with inst2 have a: "parseInt ''abc'' = NaN" by blast
  have z: "parseInt ''0'' = Finite 0" by code_simp
  have m3: "parseInt ''-3'' = Finite (- 3)" by code_simp
  have m7: "parseInt ''-7'' = Finite (- 7)" by code_simp
  have i1: "list_page \<lparr>q_page = None, q_limit = None\<rparr> = Finite 1
      \<and> list_limit \<lparr>q_page = None, q_limit = None\<rparr> = Finite 50"
    using inst1 by simp
  have i2: "list_page \<lparr>q_page = Some ''abc'', q_limit = Some ''0''\<rparr> = Finite 1
      \<and> list_limit \<lparr>q_page = Some ''abc'', q_limit = Some ''0''\<rparr> = Finite 50"
    using a z inst2 by simp
  have i3: "list_page \<lparr>q_page = Some ''-3'', q_limit = Some ''-7''\<rparr> = Finite (- 3)
      \<and> list_limit \<lparr>q_page = Some ''-3'', q_limit = Some ''-7''\<rparr> = Finite (- 7)"
    using m3 m7 inst3 by simp
  from i3 inst3
  have i4: "list_handler \<lparr>q_page = Some ''-3'', q_limit = Some ''-7''\<rparr> example_store
       = list_response (- 3) (- 7) example_store
     \<and> list_skip (- 3) (- 7) = (- 3 - 1) * - 7
     \<and> status (fst (list_handler \<lparr>q_page = Some ''-3'', q_limit = Some ''-7''\<rparr> example_store)) \<noteq> 400"
    by blast
  have g: "list_all is_js_space [CHR 0xA0, CHR '' ''] \<and> (''-'' = [] \<or> ''-'' = ''+'' \<or> ''-'' = ''-'')
        \<and> ''12'' \<noteq> [] \<and> list_all (\<lambda>d. digit_value d < 10) ''12''
        \<and> (''abc'' = [] \<or> 10 \<le> digit_value (hd ''abc''))
        \<and> \<not> (''12'' = ''0'' \<and> ''abc'' \<noteq> [] \<and> (hd ''abc'' = CHR ''x'' \<or> hd ''abc'' = CHR ''X''))"
    by code_simp
  have v: "(if ''-'' = ''-'' then - 1 else 1)
             * foldl (\<lambda>acc c. acc * 10 + int (digit_value c)) 0 ''12'' = - 12"
    by code_simp
  have b: "\<bar>- 12 :: int\<bar> < 2 ^ 53" by simp
  note g2 = inst3 [THEN conjunct2, THEN conjunct2, THEN conjunct2, THEN conjunct2,
      THEN conjunct2, THEN conjunct2, THEN conjunct2, THEN conjunct2, THEN conjunct2,
      THEN conjunct2]
  have "parseInt ([CHR 0xA0, CHR '' ''] @ ''-'' @ ''12'' @ ''abc'') =
          nearest_double ((if ''-'' = ''-'' then - 1 else 1)
             * foldl (\<lambda>acc c. acc * 10 + int (digit_value c)) 0 ''12'')"
    by (rule g2 [THEN conjunct1, THEN mp, OF g])
  moreover have "nearest_double (- 12) = Finite (- 12)"
    by (rule g2 [THEN conjunct2, THEN mp, OF b])
  ultimately have p: "parseInt (CHR 0xA0 # '' -12abc'') = Finite (- 12)"
    unfolding v by simp
  from a z m3 m7 i1 i2 i3 i4 p show ?thesis by blast
qed

text \<open>
  Claim C4 as stated fails for zero: \<open>parseInt\<close> reads \<open>0\<close>, which is falsy, so \<open>||\<close>
  replaces it by the default. \<open>page=0\<close> gives page 1 and \<open>limit=0\<close> gives limit 50. It
  fails for a value that is not a number but starts with one, too: \<open>page=12abc\<close> gives
  page 12, not the default.
\<close>

theorem zero_page_limit_counterexample:
  "parseInt ''0'' = Finite 0
   \<and> list_page \<lparr>q_page = Some ''0'', q_limit = Some ''0''\<rparr> = Finite 1
   \<and> list_limit \<lparr>q_page = Some ''0'', q_limit = Some ''0''\<rparr> = Finite 50
   \<and> parseInt ''12abc'' = Finite 12
   \<and> list_page \<lparr>q_page = Some ''12abc'', q_limit = Some ''7 rows''\<rparr> = Finite 12
   \<and> list_limit \<lparr>q_page = Some ''12abc'', q_limit = Some ''7 rows''\<rparr> = Finite 7"
  by code_simp

section \<open>The stored client address and user agent are not returned\<close>

lemma find_map_list: "find P (map f xs) = map_option f (find (\<lambda>x. P (f x)) xs)"
  by (induction xs) simp_all

lemma address_redact: "address (redact d) = address d"
  by (simp add: redact_def)

lemma registeredAt_redact: "registeredAt (redact d) = registeredAt d"
  by (simp add: redact_def)

lemma registration_view_redact: "registration_view (redact d) = registration_view d"
  by (simp add: registration_view_def redact_def)

lemma select_redact: "select_address_registeredAt (redact d) = select_address_registeredAt d"
  by (simp add: select_address_registeredAt_def redact_def)

lemma findOne_redact:
  "Whitelist_findOne a (map redact s) = map_option redact (Whitelist_findOne a s)"
  by (simp add: Whitelist_findOne_def find_map_list address_redact)

lemma list_ex_address_redact:
  "list_ex (\<lambda>x. address x = b) (map redact s) = list_ex (\<lambda>x. address x = b) s"
  by (simp add: list_ex_iff address_redact)

lemma fst_check_redact: "fst (check_handler a (map redact s)) = fst (check_handler a s)"
  by (cases "Whitelist_findOne (toLowerCase a) s")
     (simp_all add: check_handler_def Let_def findOne_redact registration_view_redact)

lemma fst_register_redact:
  "fst (register_handler e req (map redact s)) = fst (register_handler e req s)"
  by (simp add: register_handler_def Let_def findOne_redact registration_view_redact
      Whitelist_save_def list_ex_address_redact split: option.splits)

lemma insort_key_map:
  assumes "\<And>y. f (g y) = f y"
  shows "insort_key f (g x) (map g xs) = map g (insort_key f x xs)"
  by (induction xs) (simp_all add: assms)

lemma sort_key_map:
  assumes "\<And>y. f (g y) = f y"
  shows "sort_key f (map g xs) = map g (sort_key f xs)"
  by (induction xs) (simp_all add: insort_key_map [of f g, OF assms])

lemma sort_desc_redact:
  "sort_registeredAt_desc (map redact s) = map redact (sort_registeredAt_desc s)"
  unfolding sort_registeredAt_desc_def
  by (rule sort_key_map) (simp add: registeredAt_redact)

lemma find_page_redact:
  "Whitelist_find_page skip limit (map redact s) =
     (case Whitelist_find_page skip limit s of Inl err \<Rightarrow> Inl err | Inr ds \<Rightarrow> Inr (map redact ds))"
  by (simp add: Whitelist_find_page_def apply_limit_def sort_desc_redact take_map drop_map)

lemma fst_list_redact:
  "fst (list_response page limit (map redact s)) = fst (list_response page limit s)"
  by (simp add: list_response_def Let_def find_page_redact countDocuments_def select_redact
      split: sum.splits)

lemma keys_failure: "json_keys (body (failure code msg)) = [''success'', ''message'']"
  by (simp add: failure_def)

lemma keys_registration_view: "json_keys (registration_view d) = [''address'', ''registeredAt'']"
  by (simp add: registration_view_def)

lemma keys_register:
  "set (json_keys (body (fst (register_handler e req s)))) \<subseteq>
     {''success'', ''message'', ''registration'', ''address'', ''registeredAt''}"
proof (cases "string_address (body_address req)")
  case None
  then show ?thesis by (simp add: register_handler_def keys_failure)
next
  case (Some a)
  show ?thesis
  proof (cases "isValidEthereumAddress a")
    case False
    with Some show ?thesis by (simp add: register_handler_def keys_failure)
  next
    case True
    show ?thesis
    proof (cases "Whitelist_findOne (toLowerCase a) s")
      case (Some d)
      with True \<open>string_address (body_address req) = Some a\<close> show ?thesis
        by (simp add: register_handler_def keys_registration_view)
    next
      case None
      with True \<open>string_address (body_address req) = Some a\<close> show ?thesis
        by (cases "Whitelist_save (new_Whitelist e (toLowerCase a)
                (js_or (req_ip req) (remoteAddress req)) (user_agent req)) s")
           (simp_all add: register_handler_def Let_def internal_error_def keys_failure)
    qed
  qed
qed

lemma keys_check:
  "set (json_keys (body (fst (check_handler a s)))) \<subseteq>
     {''success'', ''message'', ''isRegistered'', ''registration'', ''address'', ''registeredAt''}"
proof (cases "a = [] \<or> \<not> isValidEthereumAddress a")
  case True
  then show ?thesis by (auto simp: check_handler_def keys_failure)
next
  case False
  then show ?thesis
    by (cases "Whitelist_findOne (toLowerCase a) s")
       (simp_all add: check_handler_def Let_def keys_registration_view)
qed

lemma keys_select_rows:
  "set (concat (map json_keys (map select_address_registeredAt ds))) \<subseteq>
     {''_id'', ''address'', ''registeredAt''}"
  by (induction ds) (simp_all add: select_address_registeredAt_def)

lemma keys_math_ceil_div: "json_keys (math_ceil_div n limit) = []"
  by (simp add: math_ceil_div_def)

lemma keys_list:
  "json_keys (body (fst (list_response page limit s))) =
     (case Whitelist_find_page (list_skip page limit) limit s of
        Inl err \<Rightarrow> [''success'', ''message'']
      | Inr ds \<Rightarrow> [''success'', ''count'', ''total'', ''page'', ''totalPages'', ''registrations'']
                  @ concat (map json_keys (map select_address_registeredAt ds)))"
  by (cases "Whitelist_find_page (list_skip page limit) limit s")
     (simp_all add: list_response_def Let_def internal_error_def keys_failure keys_math_ceil_div)

lemma private_not_in_list:
  assumes "k \<in> set private_keys"
  shows "k \<notin> set (json_keys (body (fst (list_response page limit s))))"
proof (cases "Whitelist_find_page (list_skip page limit) limit s")
  case (Inl err)
  with assms show ?thesis by (auto simp: keys_list private_keys_def)
next
  case (Inr ds)
  from assms have "k \<notin> {''_id'', ''address'', ''registeredAt''}"
    by (auto simp: private_keys_def)
  with keys_select_rows [of ds]
  have "k \<notin> set (concat (map json_keys (map select_address_registeredAt ds)))" by blast
  moreover from assms
  have "k \<notin> set [''success'', ''count'', ''total'', ''page'', ''totalPages'', ''registrations'']"
    by (auto simp: private_keys_def)
  ultimately show ?thesis unfolding keys_list Inr by simp
qed


text \<open>
  Claim C7. The responses of \<open>register\<close> (201 and 409 alike), \<open>check\<close> and \<open>list\<close> do not
  depend on the stored \<open>ipAddress\<close> and \<open>userAgent\<close>: two collections that are equal once
  these two fields are blanked give the same responses. No key \<open>ipAddress\<close> or
  \<open>userAgent\<close> occurs anywhere in these responses.
\<close>

theorem private_fields_not_returned:
  assumes "map redact s1 = map redact s2"
  shows "fst (register_handler e req s1) = fst (register_handler e req s2)
     \<and> fst (check_handler a s1) = fst (check_handler a s2)
     \<and> fst (list_handler q s1) = fst (list_handler q s2)
     \<and> set private_keys \<inter> set (json_keys (body (fst (register_handler e req s1)))) = {}
     \<and> set private_keys \<inter> set (json_keys (body (fst (check_handler a s1)))) = {}
     \<and> set private_keys \<inter> set (json_keys (body (fst (list_handler q s1)))) = {}"
proof (intro conjI)
  show "fst (register_handler e req s1) = fst (register_handler e req s2)"
    using assms fst_register_redact [of e req s1] fst_register_redact [of e req s2] by simp
  show "fst (check_handler a s1) = fst (check_handler a s2)"
    using assms fst_check_redact [of a s1] fst_check_redact [of a s2] by simp
  show "fst (list_handler q s1) = fst (list_handler q s2)"
    using list_handler_cases [of q]
  proof (elim disjE exE conjE)
    fix page limit
    assume "\<forall>s. list_handler q s = list_response page limit s"
    with assms fst_list_redact [of page limit s1] fst_list_redact [of page limit s2]
    show ?thesis by simp
  next
    assume "\<forall>s. list_handler q s = (internal_error, s)"
    then show ?thesis by simp
  qed
  show "set private_keys \<inter> set (json_keys (body (fst (register_handler e req s1)))) = {}"
    using keys_register [of e req s1] by (auto simp: private_keys_def)
  show "set private_keys \<inter> set (json_keys (body (fst (check_handler a s1)))) = {}"
    using keys_check [of a s1] by (auto simp: private_keys_def)
  show "set private_keys \<inter> set (json_keys (body (fst (list_handler q s1)))) = {}"
    using list_handler_cases [of q]
  proof (elim disjE exE conjE)
    fix page limit
    assume "\<forall>s. list_handler q s = list_response page limit s"
    with private_not_in_list [of _ page limit s1] show ?thesis by auto
  next
    assume "\<forall>s. list_handler q s = (internal_error, s)"
    then show ?thesis by (simp add: internal_error_def keys_failure private_keys_def)
  qed
qed


theorem private_fields_not_returned_witness:
  "map redact [example_doc 1 (toLowerCase ''0xABCDEF0123456789ABCDEF0123456789ABCDEF01'') 1000 ''203.0.113.7'']
     = map redact [(example_doc 1 (toLowerCase ''0xABCDEF0123456789ABCDEF0123456789ABCDEF01'') 1000 ''198.51.100.23'')\<lparr>userAgent := None\<rparr>]
   \<and> fst (register_handler \<lparr>env_now = 2000, env_id = 2\<rparr> (example_request ''0xABCDEF0123456789ABCDEF0123456789ABCDEF01'')
            [example_doc 1 (toLowerCase ''0xABCDEF0123456789ABCDEF0123456789ABCDEF01'') 1000 ''203.0.113.7''])
       = fst (register_handler \<lparr>env_now = 2000, env_id = 2\<rparr> (example_request ''0xABCDEF0123456789ABCDEF0123456789ABCDEF01'')
            [(example_doc 1 (toLowerCase ''0xABCDEF0123456789ABCDEF0123456789ABCDEF01'') 1000 ''198.51.100.23'')\<lparr>userAgent := None\<rparr>])
   \<and> fst (check_handler ''0xABCDEF0123456789ABCDEF0123456789ABCDEF01'' [example_doc 1 (toLowerCase ''0xABCDEF0123456789ABCDEF0123456789ABCDEF01'') 1000 ''203.0.113.7''])
       = fst (check_handler ''0xABCDEF0123456789ABCDEF0123456789ABCDEF01''
            [(example_doc 1 (toLowerCase ''0xABCDEF0123456789ABCDEF0123456789ABCDEF01'') 1000 ''198.51.100.23'')\<lparr>userAgent := None\<rparr>])
   \<and> fst (list_handler \<lparr>q_page = None, q_limit = None\<rparr>
            [example_doc 1 (toLowerCase ''0xABCDEF0123456789ABCDEF0123456789ABCDEF01'') 1000 ''203.0.113.7''])
       = fst (list_handler \<lparr>q_page = None, q_limit = None\<rparr>
            [(example_doc 1 (toLowerCase ''0xABCDEF0123456789ABCDEF0123456789ABCDEF01'') 1000 ''198.51.100.23'')\<lparr>userAgent := None\<rparr>])
   \<and> set private_keys \<inter> set (json_keys (body (fst
        (register_handler \<lparr>env_now = 2000, env_id = 2\<rparr> (example_request ''0xABCDEF0123456789ABCDEF0123456789ABCDEF01'')
            [example_doc 1 (toLowerCase ''0xABCDEF0123456789ABCDEF0123456789ABCDEF01'') 1000 ''203.0.113.7''])))) = {}
   \<and> set private_keys \<inter> set (json_keys (body (fst
        (check_handler ''0xABCDEF0123456789ABCDEF0123456789ABCDEF01'' [example_doc 1 (toLowerCase ''0xABCDEF0123456789ABCDEF0123456789ABCDEF01'') 1000 ''203.0.113.7''])))) = {}
   \<and> set private_keys \<inter> set (json_keys (body (fst
        (list_handler \<lparr>q_page = None, q_limit = None\<rparr>
            [example_doc 1 (toLowerCase ''0xABCDEF0123456789ABCDEF0123456789ABCDEF01'') 1000 ''203.0.113.7''])))) = {}"
proof -
  have h: "map redact [example_doc 1 (toLowerCase ''0xABCDEF0123456789ABCDEF0123456789ABCDEF01'') 1000 ''203.0.113.7'']
     = map redact [(example_doc 1 (toLowerCase ''0xABCDEF0123456789ABCDEF0123456789ABCDEF01'') 1000 ''198.51.100.23'')\<lparr>userAgent := None\<rparr>]"
    by (simp add: redact_def example_doc_def)
  from h private_fields_not_returned [OF h] show ?thesis by blast
qed

end
